theory Spec2Isabelle
  imports Complex_Main "HOL-Library.Multiset" "HOL-Library.Log_Nat" "HOL-Library.Product_Lexorder"
begin

section \<open>JavaScript values used by the views\<close>

text \<open>
  A JavaScript number is an IEEE 754 double: \<open>NaN\<close>, one of the two infinities, or a
  finite value, held as the rational it denotes. The two zeros are held as one.
\<close>

datatype jsnum = NaN | PInf | NInf | Fin rat

subsection \<open>Rounding to the nearest double\<close>

text \<open>Rounding a rational to an integer, a tie going to the even neighbour.\<close>

definition rne :: "rat \<Rightarrow> int" where
  "rne q =
     (let f = \<lfloor>q\<rfloor>; r = q - of_int f
      in if r < 1 / 2 then f else if r > 1 / 2 then f + 1 else if even f then f else f + 1)"

text \<open>The binary exponent of a non-zero rational: \<open>2 powi e \<le> \<bar>x\<bar> < 2 powi (e + 1)\<close>.\<close>

definition ilog2 :: "rat \<Rightarrow> int" where
  "ilog2 x =
     (let (p, q) = quotient_of \<bar>x\<bar>; d = bitlen p - bitlen q
      in if 2 powi d \<le> \<bar>x\<bar> then d else d - 1)"

text \<open>
  The exponent of the unit in the last place: 53 significant bits, and the subnormal
  spacing \<open>2 powi (- 1074)\<close> below \<open>2 powi (- 1022)\<close>.
\<close>

definition ulp_exp :: "rat \<Rightarrow> int" where
  "ulp_exp x = max (ilog2 x) (- 1022) - 52"

definition fl_abs :: "rat \<Rightarrow> rat" where
  "fl_abs x = of_int (rne (x / 2 powi ulp_exp x)) * 2 powi ulp_exp x"

text \<open>The overflow threshold \<open>2^1024\<close>, written out.\<close>

definition double_overflow :: rat where
  "double_overflow =
     179769313486231590772930519078902473361797697894230657273430081157732675805500963132708477322407536021120113879871393357658789768814416622492847430639474124377767893424865485276302219601246094119453082952085005768838150682342462881473913110540827237163350510684586298239947245938479716304835356329624224137216"

text \<open>
  The double nearest to a rational (round to nearest, ties to even); a result of
  magnitude \<open>2^1024\<close> overflows to an infinity.
\<close>

definition fl :: "rat \<Rightarrow> jsnum" where
  "fl x =
     (if x = 0 then Fin 0
      else let y = fl_abs \<bar>x\<bar>
           in if y \<ge> double_overflow then (if x > 0 then PInf else NInf)
              else Fin (if x > 0 then y else - y))"

text \<open>Every finite double is a multiple of \<open>2 powi (- 1074)\<close>.\<close>

definition on_grid :: "rat \<Rightarrow> bool" where
  "on_grid r = (of_int \<lfloor>r * 2 ^ 1074\<rfloor> = r * 2 ^ 1074)"

subsection \<open>Values and operators\<close>

text \<open>
  A numeric field of a record parsed from JSON (the records are typed \<open>any\<close>): the key is
  missing (\<open>undefined\<close>), holds \<open>null\<close>, or holds a number, given by the rational that
  its JSON text denotes; \<open>JSON.parse\<close> reads it as the nearest double.
\<close>

datatype jsval = Undefined | Null | Number rat

fun ToNumber :: "jsval \<Rightarrow> jsnum" where
  "ToNumber Undefined = NaN"
| "ToNumber Null = Fin 0"
| "ToNumber (Number r) = fl r"

fun js_add :: "jsnum \<Rightarrow> jsnum \<Rightarrow> jsnum" where
  "js_add NaN _ = NaN"
| "js_add _ NaN = NaN"
| "js_add (Fin a) (Fin b) = fl (a + b)"
| "js_add PInf NInf = NaN"
| "js_add NInf PInf = NaN"
| "js_add PInf _ = PInf"
| "js_add _ PInf = PInf"
| "js_add _ _ = NInf"

fun js_neg :: "jsnum \<Rightarrow> jsnum" where
  "js_neg NaN = NaN"
| "js_neg PInf = NInf"
| "js_neg NInf = PInf"
| "js_neg (Fin a) = Fin (- a)"

definition js_sub :: "jsnum \<Rightarrow> jsnum \<Rightarrow> jsnum" where
  "js_sub a b = js_add a (js_neg b)"

text \<open>
  Division. A zero divisor is taken as \<open>+0\<close>; the one division of the source divides by
  a count of at least one.
\<close>

fun js_div :: "jsnum \<Rightarrow> jsnum \<Rightarrow> jsnum" where
  "js_div NaN _ = NaN"
| "js_div _ NaN = NaN"
| "js_div (Fin a) (Fin b) =
     (if b = 0 then (if a = 0 then NaN else if a > 0 then PInf else NInf) else fl (a / b))"
| "js_div (Fin a) _ = Fin 0"
| "js_div PInf (Fin b) = (if b < 0 then NInf else PInf)"
| "js_div NInf (Fin b) = (if b < 0 then PInf else NInf)"
| "js_div _ _ = NaN"

text \<open>The relational operators: every comparison with \<open>NaN\<close> is false.\<close>

fun js_lt :: "jsnum \<Rightarrow> jsnum \<Rightarrow> bool" where
  "js_lt NaN _ = False"
| "js_lt _ NaN = False"
| "js_lt (Fin a) (Fin b) = (a < b)"
| "js_lt PInf _ = False"
| "js_lt _ NInf = False"
| "js_lt _ _ = True"

fun js_le :: "jsnum \<Rightarrow> jsnum \<Rightarrow> bool" where
  "js_le NaN _ = False"
| "js_le _ NaN = False"
| "js_le (Fin a) (Fin b) = (a \<le> b)"
| "js_le NInf _ = True"
| "js_le _ PInf = True"
| "js_le _ _ = False"

abbreviation js_gt :: "jsnum \<Rightarrow> jsnum \<Rightarrow> bool" where
  "js_gt a b \<equiv> js_lt b a"

abbreviation js_ge :: "jsnum \<Rightarrow> jsnum \<Rightarrow> bool" where
  "js_ge a b \<equiv> js_le b a"

text \<open>
  \<open>parseFloat(x.toFixed(1))\<close>. \<open>toFixed(1)\<close> prints the multiple of one tenth nearest
  to the exact value of the double, the larger magnitude on a tie, and \<open>parseFloat\<close>
  reads the digits back as the nearest double. Magnitudes from \<open>10^21\<close> on, the
  infinities and \<open>NaN\<close> are printed so that \<open>parseFloat\<close> returns them unchanged.
\<close>

definition round_tenth :: "rat \<Rightarrow> rat" where
  "round_tenth x =
     (if x < 0 then - (of_int \<lfloor>(- x) * 10 + 1 / 2\<rfloor> / 10)
      else of_int \<lfloor>x * 10 + 1 / 2\<rfloor> / 10)"

fun toFixed1 :: "jsnum \<Rightarrow> jsnum" where
  "toFixed1 (Fin x) = (if \<bar>x\<bar> \<ge> 10 ^ 21 then Fin x else fl (round_tenth x))"
| "toFixed1 v = v"

text \<open>The operand \<open>x || d\<close> on an optional string: missing, \<open>null\<close> and \<open>""\<close> are falsy.\<close>

fun or_default :: "string option \<Rightarrow> string \<Rightarrow> string" where
  "or_default None d = d"
| "or_default (Some s) d = (if s = [] then d else s)"

text \<open>
  \<open>Array.prototype.sort\<close> with a comparator: a stable sort, here by insertion. The
  element \<open>x\<close> is moved behind \<open>y\<close> only when the comparator is positive on \<open>(x, y)\<close>; a
  comparator value \<open>NaN\<close> counts as zero. For a comparator that is not a consistent
  ordering the engine's order is implementation-defined; this model is one such order.
\<close>

fun js_insert :: "('a \<Rightarrow> 'a \<Rightarrow> jsnum) \<Rightarrow> 'a \<Rightarrow> 'a list \<Rightarrow> 'a list" where
  "js_insert cmp x [] = [x]"
| "js_insert cmp x (y # ys) =
     (if js_gt (cmp x y) (Fin 0) then y # js_insert cmp x ys else x # y # ys)"

fun js_sort :: "('a \<Rightarrow> 'a \<Rightarrow> jsnum) \<Rightarrow> 'a list \<Rightarrow> 'a list" where
  "js_sort cmp [] = []"
| "js_sort cmp (x # xs) = js_insert cmp x (js_sort cmp xs)"

subsection \<open>Plain objects used as dictionaries\<close>

text \<open>
  An object created by \<open>{}\<close> is modelled by the association list of its own properties in
  insertion order. Reading a key that is not an own property finds the properties
  inherited from \<open>Object.prototype\<close>, all of them truthy.
\<close>

definition inherited_keys :: "string list" where
  "inherited_keys =
     [''constructor'', ''__defineGetter__'', ''__defineSetter__'', ''hasOwnProperty'',
      ''__lookupGetter__'', ''__lookupSetter__'', ''isPrototypeOf'',
      ''propertyIsEnumerable'', ''toString'', ''valueOf'', ''__proto__'',
      ''toLocaleString'']"

text \<open>
  Own keys are enumerated with the array indices first (canonical decimal strings below
  \<open>2^32 - 1\<close>, in ascending numeric order), then the other keys in insertion order.
\<close>

definition is_digit :: "char \<Rightarrow> bool" where
  "is_digit c = (c \<in> set ''0123456789'')"

definition digit_val :: "char \<Rightarrow> int" where
  "digit_val c = of_char c - 48"

definition digits_val :: "string \<Rightarrow> int" where
  "digits_val s = foldl (\<lambda>n c. 10 * n + digit_val c) 0 s"

definition is_array_index :: "string \<Rightarrow> bool" where
  "is_array_index s =
     (s \<noteq> [] \<and> list_all is_digit s \<and> (s = ''0'' \<or> hd s \<noteq> CHR ''0'')
      \<and> length s \<le> 10 \<and> digits_val s < 2 ^ 32 - 1)"

definition object_entries :: "(string \<times> 'a) list \<Rightarrow> (string \<times> 'a) list" where
  "object_entries props =
     sort_key (\<lambda>p. digits_val (fst p)) (filter (\<lambda>p. is_array_index (fst p)) props)
     @ filter (\<lambda>p. \<not> is_array_index (fst p)) props"

definition object_values :: "(string \<times> 'a) list \<Rightarrow> 'a list" where
  "object_values props = map snd (object_entries props)"

text \<open>Assignment \<open>obj[k] = v\<close> to an own property: overwrite in place or append.\<close>

fun set_prop :: "string \<Rightarrow> 'a \<Rightarrow> (string \<times> 'a) list \<Rightarrow> (string \<times> 'a) list" where
  "set_prop k v [] = [(k, v)]"
| "set_prop k v ((k', v') # ps) =
     (if k' = k then (k, v) # ps else (k', v') # set_prop k v ps)"

section \<open>The date-fns functions the views call\<close>

text \<open>
  A \<open>Date\<close> is its time value in milliseconds since the epoch, \<open>None\<close> for an Invalid
  Date. Local time is modelled as a fixed offset \<open>tz\<close> (milliseconds ahead of UTC);
  daylight-saving transitions are not modelled.
\<close>

type_synonym date = "int option"

definition ms_per_hour :: int where "ms_per_hour = 3600000"
definition ms_per_day :: int where "ms_per_day = 86400000"

definition isAfter :: "date \<Rightarrow> date \<Rightarrow> bool" where
  "isAfter d c = (case (d, c) of (Some t, Some u) \<Rightarrow> t > u | _ \<Rightarrow> False)"

definition subHours :: "date \<Rightarrow> int \<Rightarrow> date" where
  "subHours d n = map_option (\<lambda>t. t - n * ms_per_hour) d"

definition startOfDay :: "int \<Rightarrow> date \<Rightarrow> date" where
  "startOfDay tz d = map_option (\<lambda>t. t - (t + tz) mod ms_per_day) d"

definition subDays :: "date \<Rightarrow> int \<Rightarrow> date" where
  "subDays d n = map_option (\<lambda>t. t - n * ms_per_day) d"

text \<open>Days since the epoch from a proleptic Gregorian date, and back.\<close>

definition days_from_civil :: "int \<Rightarrow> int \<Rightarrow> int \<Rightarrow> int" where
  "days_from_civil y m d =
     (let y' = (if m \<le> 2 then y - 1 else y);
          era = y' div 400;
          yoe = y' - era * 400;
          doy = (153 * (if m > 2 then m - 3 else m + 9) + 2) div 5 + d - 1;
          doe = yoe * 365 + yoe div 4 - yoe div 100 + doy
      in era * 146097 + doe - 719468)"

definition civil_from_days :: "int \<Rightarrow> int \<times> int \<times> int" where
  "civil_from_days z =
     (let z' = z + 719468;
          era = z' div 146097;
          doe = z' - era * 146097;
          yoe = (doe - doe div 1460 + doe div 36524 - doe div 146096) div 365;
          doy = doe - (365 * yoe + yoe div 4 - yoe div 100);
          mp = (5 * doy + 2) div 153;
          d = doy - (153 * mp + 2) div 5 + 1;
          m = (mp + 2) mod 12 + 1;
          y = yoe + era * 400
      in (if m \<le> 2 then y + 1 else y, m, d))"

definition days_in_month :: "int \<Rightarrow> int \<Rightarrow> int" where
  "days_in_month y m =
     (if m = 12 then days_from_civil (y + 1) 1 1 - days_from_civil y 12 1
      else days_from_civil y (m + 1) 1 - days_from_civil y m 1)"

text \<open>
  \<open>subMonths\<close>: the same local time of day in the month \<open>n\<close> months earlier, the day of
  the month clamped to the length of that month.
\<close>

definition subMonths :: "int \<Rightarrow> date \<Rightarrow> int \<Rightarrow> date" where
  "subMonths tz d n =
     map_option (\<lambda>t.
       if n = 0 then t
       else
         let loc = t + tz;
             tod = loc mod ms_per_day;
             (y, m, dom) = civil_from_days (loc div ms_per_day);
             m0 = m - 1 - n;
             y' = y + m0 div 12;
             m' = m0 mod 12 + 1;
             dom' = min dom (days_in_month y' m')
         in days_from_civil y' m' dom' * ms_per_day + tod - tz) d"

definition subYears :: "int \<Rightarrow> date \<Rightarrow> int \<Rightarrow> date" where
  "subYears tz d n = subMonths tz d (n * 12)"

definition isSameDay :: "int \<Rightarrow> date \<Rightarrow> date \<Rightarrow> bool" where
  "isSameDay tz a b =
     (case (startOfDay tz a, startOfDay tz b) of (Some t, Some u) \<Rightarrow> t = u | _ \<Rightarrow> False)"

definition isToday :: "int \<Rightarrow> int \<Rightarrow> date \<Rightarrow> bool" where
  "isToday tz now d = isSameDay tz d (Some now)"

definition isYesterday :: "int \<Rightarrow> int \<Rightarrow> date \<Rightarrow> bool" where
  "isYesterday tz now d = isSameDay tz d (subDays (Some now) 1)"

definition month_names :: "string list" where
  "month_names =
     [''January'', ''February'', ''March'', ''April'', ''May'', ''June'', ''July'',
      ''August'', ''September'', ''October'', ''November'', ''December'']"

text \<open>The decimal digits of a non-negative integer.\<close>

function show_nat :: "int \<Rightarrow> string" where
  "show_nat n =
     (if n < 10 then [char_of (48 + n)] else show_nat (n div 10) @ [char_of (48 + n mod 10)])"
  by pat_completeness auto
termination
  by (relation "measure nat") auto

declare show_nat.simps [simp del]

definition pad4 :: "string \<Rightarrow> string" where
  "pad4 s = replicate (4 - length s) (CHR ''0'') @ s"

text \<open>
  \<open>format(date, 'MMMM yyyy')\<close>: the English month name and the year of the era on at
  least four digits; \<open>format\<close> throws a RangeError on an Invalid Date (\<open>None\<close>).
\<close>

definition format_MMMM_yyyy :: "int \<Rightarrow> date \<Rightarrow> string option" where
  "format_MMMM_yyyy tz d =
     map_option (\<lambda>t.
       let (y, m, dom) = civil_from_days ((t + tz) div ms_per_day);
           yr = (if y > 0 then y else 1 - y)
       in month_names ! nat (m - 1) @ '' '' @ pad4 (show_nat yr)) d"

section \<open>The records\<close>

text \<open>
  A timestamp field of a record: missing (or \<open>null\<close>, or the empty string, all falsy), a
  string that \<open>parseISO\<close> cannot read, or an ISO-8601 string, held as the instant it
  denotes. An instant outside the range of \<open>Date\<close> (100 million days on either side
  of the epoch) is an Invalid Date.
\<close>

datatype timestamp = Missing | Malformed | Iso int

fun parseISO :: "timestamp \<Rightarrow> date" where
  "parseISO (Iso t) = (if \<bar>t\<bar> \<le> 8640000000000000 then Some t else None)"
| "parseISO _ = None"

text \<open>\<open>a || b\<close> on two timestamp fields.\<close>

fun ts_or :: "timestamp \<Rightarrow> timestamp \<Rightarrow> timestamp" where
  "ts_or Missing b = b"
| "ts_or a b = a"

record news_item =
  nid :: int
  title :: string
  sentiment_score :: jsval
  impact_score :: jsval
  urgency :: "string option"
  risk_type :: "string option"
  industry_tag :: "string option"
  created_at :: timestamp
  published_at :: timestamp

text \<open>A record with every optional field missing, to build concrete records from.\<close>

definition blank_item :: news_item where
  "blank_item =
     \<lparr>nid = 0, title = [], sentiment_score = Undefined, impact_score = Undefined,
      urgency = None, risk_type = None, industry_tag = None,
      created_at = Missing, published_at = Missing\<rparr>"

section \<open>AdminSettings: configuration state\<close>

record admin_config =
  search_keywords :: "string list"
  scraping_interval_minutes :: int

text \<open>The component state: \<open>local_keywords\<close> is the state variable \<open>keywords\<close>.\<close>

record admin_state =
  local_keywords :: "string list"
  interval :: int
  newKeyword :: string
  selectedIndustry :: string

definition initial_state :: admin_state where
  "initial_state =
     \<lparr>local_keywords = [], interval = 60, newKeyword = [], selectedIndustry = ''Electric Vehicle''\<rparr>"

text \<open>
  The effect that runs when the fetched \<open>config\<close> changes; \<open>None\<close> is the \<open>undefined\<close>
  of a query without data.
\<close>

definition sync_config :: "admin_config option \<Rightarrow> admin_state \<Rightarrow> admin_state" where
  "sync_config config st =
     (case config of
        None \<Rightarrow> st
      | Some c \<Rightarrow>
          if length (local_keywords st) = 0 then
            (let st1 = st\<lparr>local_keywords := search_keywords c,
                           interval := scraping_interval_minutes c\<rparr>
             in if length (search_keywords c) > 0
                then st1\<lparr>selectedIndustry := search_keywords c ! 0\<rparr>
                else st1)
          else st)"

text \<open>
  The payload \<open>updateConfig\<close> posts: an argument that is missing or falsy (the interval
  \<open>0\<close>; an array is always truthy) falls back to the current state.
\<close>

definition updateConfig :: "admin_state \<Rightarrow> string list option \<Rightarrow> int option \<Rightarrow> admin_config" where
  "updateConfig st newKeywords newInterval =
     \<lparr>search_keywords = (case newKeywords of None \<Rightarrow> local_keywords st | Some ks \<Rightarrow> ks),
      scraping_interval_minutes =
        (case newInterval of None \<Rightarrow> interval st
         | Some n \<Rightarrow> if n = 0 then interval st else n)\<rparr>"

text \<open>
  The keyword handlers return the next state and the payload posted, if any. The call
  \<open>updateConfig(updated)\<close> is made from the closure of the current render, whose
  \<open>interval\<close> is that of \<open>st\<close>.
\<close>

definition addKeyword :: "admin_state \<Rightarrow> admin_state \<times> admin_config option" where
  "addKeyword st =
     (if newKeyword st \<noteq> [] \<and> \<not> List.member (local_keywords st) (newKeyword st) then
        (let updated = local_keywords st @ [newKeyword st]
         in (st\<lparr>local_keywords := updated, newKeyword := []\<rparr>,
             Some (updateConfig st (Some updated) None)))
      else (st, None))"

definition removeKeyword :: "string \<Rightarrow> admin_state \<Rightarrow> admin_state \<times> admin_config option" where
  "removeKeyword kw st =
     (let updated = filter (\<lambda>k. k \<noteq> kw) (local_keywords st)
      in (st\<lparr>local_keywords := updated\<rparr>, Some (updateConfig st (Some updated) None)))"

text \<open>Typing a keyword into the input box.\<close>

definition setNewKeyword :: "string \<Rightarrow> admin_state \<Rightarrow> admin_state" where
  "setNewKeyword kw st = st\<lparr>newKeyword := kw\<rparr>"

section \<open>AdminSettings: the analytics views\<close>

text \<open>
  The named ranges. \<open>Quarterly\<close> belongs to the type of the news feed only; in the
  analytics view it would reach the \<open>default\<close> branch of the \<open>switch\<close>.
\<close>

datatype TimeRange = Daily | Weekly | Monthly | Quarterly | Yearly

text \<open>The cutoff of the analytics view; \<open>now\<close> is the value of \<open>new Date()\<close>.\<close>

fun analytics_startDate :: "int \<Rightarrow> int \<Rightarrow> TimeRange \<Rightarrow> date" where
  "analytics_startDate tz now Daily = subHours (Some now) 24"
| "analytics_startDate tz now Weekly = subDays (Some now) 7"
| "analytics_startDate tz now Monthly = subMonths tz (Some now) 1"
| "analytics_startDate tz now Yearly = subYears tz (Some now) 1"
| "analytics_startDate tz now _ = subMonths tz (Some now) 1"

record bucket =
  bucket_name :: string
  bucket_value :: nat
  bucket_color :: string

record sentiment_counts =
  Positive :: bucket
  Neutral :: bucket
  Risk :: bucket

definition counts0 :: sentiment_counts where
  "counts0 =
     \<lparr>Positive = \<lparr>bucket_name = ''Positive'', bucket_value = 0, bucket_color = ''#10b981''\<rparr>,
      Neutral = \<lparr>bucket_name = ''Neutral'', bucket_value = 0, bucket_color = ''#f59e0b''\<rparr>,
      Risk = \<lparr>bucket_name = ''Risk'', bucket_value = 0, bucket_color = ''#ef4444''\<rparr>\<rparr>"

definition incr :: "bucket \<Rightarrow> bucket" where
  "incr b = b\<lparr>bucket_value := bucket_value b + 1\<rparr>"

text \<open>The body of the \<open>forEach\<close> that classifies one record.\<close>

definition classify :: "sentiment_counts \<Rightarrow> news_item \<Rightarrow> sentiment_counts" where
  "classify counts item =
     (if js_gt (ToNumber (sentiment_score item)) (Fin 7)
        then counts\<lparr>Positive := incr (Positive counts)\<rparr>
      else if js_lt (ToNumber (sentiment_score item)) (Fin 4)
        then counts\<lparr>Risk := incr (Risk counts)\<rparr>
      else counts\<lparr>Neutral := incr (Neutral counts)\<rparr>)"

definition time_filtered :: "int \<Rightarrow> int \<Rightarrow> TimeRange \<Rightarrow> news_item list \<Rightarrow> news_item list" where
  "time_filtered tz now timeRange rawNews =
     filter (\<lambda>item. isAfter (parseISO (ts_or (published_at item) (created_at item)))
                             (analytics_startDate tz now timeRange)) rawNews"

definition filteredSentimentData :: "int \<Rightarrow> int \<Rightarrow> TimeRange \<Rightarrow> news_item list \<Rightarrow> bucket list" where
  "filteredSentimentData tz now timeRange rawNews =
     (let filtered = time_filtered tz now timeRange rawNews;
          counts = foldl classify counts0 filtered
      in filter (\<lambda>c. bucket_value c > 0) [Positive counts, Neutral counts, Risk counts])"

text \<open>The bucket of a record, by the thresholds of the classifier.\<close>

definition sentiment_bucket :: "news_item \<Rightarrow> string" where
  "sentiment_bucket item =
     (if js_gt (ToNumber (sentiment_score item)) (Fin 7) then ''Positive''
      else if js_lt (ToNumber (sentiment_score item)) (Fin 4) then ''Risk''
      else ''Neutral'')"

definition bucket_size :: "news_item list \<Rightarrow> string \<Rightarrow> nat" where
  "bucket_size items b = length (filter (\<lambda>item. sentiment_bucket item = b) items)"

text \<open>A record whose \<open>sentiment_score\<close> is defined: it holds a number.\<close>

definition has_sentiment :: "news_item \<Rightarrow> bool" where
  "has_sentiment item = (case sentiment_score item of Number r \<Rightarrow> True | _ \<Rightarrow> False)"

subsection \<open>Industry ranking\<close>

record agg =
  agg_name :: string
  agg_score :: jsnum
  agg_count :: jsnum

record ranking =
  rank_name :: string
  rank_score :: jsnum

text \<open>
  One step of the \<open>forEach\<close> over \<open>rawNews\<close>. When the tag names a property inherited
  from \<open>Object.prototype\<close> the test \<open>!aggregation[tag]\<close> is false and the two updates
  land on the inherited object: \<open>aggregation\<close> gets no own property.
\<close>

definition aggregate :: "(string \<times> agg) list \<Rightarrow> news_item \<Rightarrow> (string \<times> agg) list" where
  "aggregate aggregation item =
     (let tag = or_default (industry_tag item) ''General''
      in if List.member inherited_keys tag then aggregation
         else
           let cur = (case map_of aggregation tag of
                        None \<Rightarrow> \<lparr>agg_name = tag, agg_score = Fin 0, agg_count = Fin 0\<rparr>
                      | Some a \<Rightarrow> a)
           in set_prop tag
                (cur\<lparr>agg_score := js_add (agg_score cur) (ToNumber (impact_score item)),
                     agg_count := js_add (agg_count cur) (Fin 1)\<rparr>)
                aggregation)"

definition mean_entry :: "agg \<Rightarrow> ranking" where
  "mean_entry a =
     \<lparr>rank_name = agg_name a,
      rank_score = toFixed1 (js_div (agg_score a) (agg_count a))\<rparr>"

definition industryImpactData :: "news_item list \<Rightarrow> ranking list" where
  "industryImpactData rawNews =
     js_sort (\<lambda>a b. js_sub (rank_score b) (rank_score a))
       (map mean_entry (object_values (foldl aggregate [] rawNews)))"

text \<open>
  The ranking described group by group: the group of a tag holds every record of
  \<open>rawNews\<close> with that tag (absent or empty: \<open>General\<close>), and its score is the rounded
  quotient of the sum of their \<open>impact_score\<close> values, added in order, by their number,
  counted up by one per record, all in double arithmetic.
\<close>

definition resolved_tag :: "news_item \<Rightarrow> string" where
  "resolved_tag item = or_default (industry_tag item) ''General''"

definition group_of :: "string \<Rightarrow> news_item list \<Rightarrow> news_item list" where
  "group_of t rawNews = filter (\<lambda>item. resolved_tag item = t) rawNews"

definition js_sum :: "jsnum list \<Rightarrow> jsnum" where
  "js_sum xs = foldl js_add (Fin 0) xs"

fun js_count :: "nat \<Rightarrow> jsnum" where
  "js_count 0 = Fin 0"
| "js_count (Suc n) = js_add (js_count n) (Fin 1)"

definition group_agg :: "news_item list \<Rightarrow> string \<Rightarrow> agg" where
  "group_agg rawNews t =
     \<lparr>agg_name = t,
      agg_score = js_sum (map (\<lambda>item. ToNumber (impact_score item)) (group_of t rawNews)),
      agg_count = js_count (length (group_of t rawNews))\<rparr>"

definition group_tags :: "news_item list \<Rightarrow> string set" where
  "group_tags rawNews = {t \<in> resolved_tag ` set rawNews. t \<notin> set inherited_keys}"

text \<open>A record whose \<open>impact_score\<close> is a number of the range 0 to 10 of the data model.\<close>

definition impact_in_range :: "news_item \<Rightarrow> bool" where
  "impact_in_range item =
     (case impact_score item of Number r \<Rightarrow> 0 \<le> r \<and> r \<le> 10 | _ \<Rightarrow> False)"

definition mean_in_range :: "ranking \<Rightarrow> bool" where
  "mean_in_range e = (js_le (Fin 0) (rank_score e) \<and> js_le (rank_score e) (Fin 10))"

text \<open>
  A number that a comparator can order: not \<open>NaN\<close>, and a double when finite. Its key
  orders such numbers downwards, the pairs being compared first component first.
\<close>

fun ok_key :: "jsnum \<Rightarrow> bool" where
  "ok_key (Fin r) = on_grid r"
| "ok_key NaN = False"
| "ok_key _ = True"

fun desc_key :: "jsnum \<Rightarrow> int \<times> rat" where
  "desc_key PInf = (0, 0)"
| "desc_key (Fin r) = (1, - r)"
| "desc_key NInf = (2, 0)"
| "desc_key NaN = (3, 0)"

subsection \<open>Risk distribution\<close>

record risk_entry =
  risk_name :: string
  risk_count :: nat

definition risks :: "string list" where
  "risks = [''Policy'', ''Competition'', ''Supply Chain'', ''Financial'', ''Other'', ''None'']"

text \<open>\<open>found.count++\<close> on the first entry of the array that \<open>find\<close> returns.\<close>

fun incr_first :: "string \<Rightarrow> risk_entry list \<Rightarrow> risk_entry list" where
  "incr_first r [] = []"
| "incr_first r (c # cs) =
     (if risk_name c = r then c\<lparr>risk_count := risk_count c + 1\<rparr> # cs
      else c # incr_first r cs)"

definition count_risk :: "risk_entry list \<Rightarrow> news_item \<Rightarrow> risk_entry list" where
  "count_risk counts item =
     (let r = or_default (risk_type item) ''None''
      in case find (\<lambda>c. risk_name c = r) counts of
           Some found \<Rightarrow> incr_first r counts
         | None \<Rightarrow> incr_first ''Other'' counts)"

definition riskDistributionData :: "news_item list \<Rightarrow> risk_entry list" where
  "riskDistributionData rawNews =
     (let counts = map (\<lambda>r. \<lparr>risk_name = r, risk_count = 0\<rparr>) risks
      in filter (\<lambda>c. risk_count c > 0) (foldl count_risk counts rawNews))"

text \<open>
  The category of a record in the words of the specification: an absent \<open>risk_type\<close>
  is \<open>None\<close>, a value that is none of the six names is \<open>Other\<close>.
\<close>

definition risk_category_spec :: "news_item \<Rightarrow> string" where
  "risk_category_spec item =
     (case risk_type item of
        None \<Rightarrow> ''None''
      | Some s \<Rightarrow> if s = [] then ''None'' else if s \<in> set risks then s else ''Other'')"

definition risk_entry_spec :: "news_item list \<Rightarrow> string \<Rightarrow> risk_entry" where
  "risk_entry_spec rawNews r =
     \<lparr>risk_name = r, risk_count = length (filter (\<lambda>item. risk_category_spec item = r) rawNews)\<rparr>"

subsection \<open>Urgency/impact correlation\<close>

record point =
  pt_impact :: jsval
  pt_urgency :: nat
  pt_title :: string
  pt_id :: int

definition urgency_weight :: "string option \<Rightarrow> nat" where
  "urgency_weight u = (if u = Some ''High'' then 3 else if u = Some ''Medium'' then 2 else 1)"

definition scatterData :: "news_item list \<Rightarrow> point list" where
  "scatterData rawNews =
     map (\<lambda>item. \<lparr>pt_impact = impact_score item, pt_urgency = urgency_weight (urgency item),
                   pt_title = title item, pt_id = nid item\<rparr>) rawNews"

section \<open>NewsFeed: the chronological feed\<close>

datatype SortBy = Latest | HighestImpact

record feed_state =
  industryFilter :: string
  minScore :: rat
  timeRange :: TimeRange
  sortBy :: SortBy

fun feed_startDate :: "int \<Rightarrow> int \<Rightarrow> TimeRange \<Rightarrow> date" where
  "feed_startDate tz now Daily = startOfDay tz (Some now)"
| "feed_startDate tz now Weekly = subDays (Some now) 7"
| "feed_startDate tz now Monthly = subMonths tz (Some now) 1"
| "feed_startDate tz now Quarterly = subMonths tz (Some now) 3"
| "feed_startDate tz now Yearly = subYears tz (Some now) 1"

text \<open>\<open>Date.prototype.getTime\<close>: \<open>NaN\<close> on an Invalid Date.\<close>

fun getTime :: "date \<Rightarrow> jsnum" where
  "getTime None = NaN"
| "getTime (Some t) = Fin (of_int t)"

definition matches :: "int \<Rightarrow> int \<Rightarrow> feed_state \<Rightarrow> news_item \<Rightarrow> bool" where
  "matches tz now fs item =
     (let itemDate = parseISO (created_at item);
          matchesTime = isAfter itemDate (feed_startDate tz now (timeRange fs));
          matchesIndustry =
            (industryFilter fs = ''All'' \<or> industry_tag item = Some (industryFilter fs));
          matchesScore = js_ge (ToNumber (impact_score item)) (Fin (minScore fs))
      in matchesTime \<and> matchesIndustry \<and> matchesScore)"

definition by_latest :: "news_item \<Rightarrow> news_item \<Rightarrow> jsnum" where
  "by_latest a b =
     js_sub (getTime (parseISO (created_at b))) (getTime (parseISO (created_at a)))"

definition by_impact :: "news_item \<Rightarrow> news_item \<Rightarrow> jsnum" where
  "by_impact a b = js_sub (ToNumber (impact_score b)) (ToNumber (impact_score a))"

text \<open>\<open>news\<close> is \<open>None\<close> while the query has no data.\<close>

definition filteredAndSortedNews ::
    "int \<Rightarrow> int \<Rightarrow> feed_state \<Rightarrow> news_item list option \<Rightarrow> news_item list" where
  "filteredAndSortedNews tz now fs news =
     (case news of
        None \<Rightarrow> []
      | Some ns \<Rightarrow>
          let filtered = filter (matches tz now fs) ns
          in if sortBy fs = Latest then js_sort by_latest filtered
             else js_sort by_impact filtered)"

datatype error = RangeError

text \<open>The label of one record; \<open>format\<close> throws on an Invalid Date.\<close>

definition groupLabel :: "int \<Rightarrow> int \<Rightarrow> news_item \<Rightarrow> error + string" where
  "groupLabel tz now item =
     (let date = parseISO (created_at item)
      in if isToday tz now date then Inr ''Today''
         else if isYesterday tz now date then Inr ''Yesterday''
         else if isAfter date (subDays (Some now) 7) then Inr ''This Week''
         else (case format_MMMM_yyyy tz date of
                 None \<Rightarrow> Inl RangeError
               | Some l \<Rightarrow> Inr l))"

text \<open>
  \<open>if (!groups[l]) groups[l] = []; groups[l].push(item)\<close>. No label is a property
  name of \<open>Object.prototype\<close> or an array index, so \<open>groups\<close> is its own properties
  in insertion order, which is the order \<open>Object.entries\<close> renders.
\<close>

definition push_group ::
    "string \<Rightarrow> news_item \<Rightarrow> (string \<times> news_item list) list \<Rightarrow> (string \<times> news_item list) list" where
  "push_group l item groups =
     set_prop l ((case map_of groups l of None \<Rightarrow> [] | Some xs \<Rightarrow> xs) @ [item]) groups"

fun group_from ::
    "int \<Rightarrow> int \<Rightarrow> (string \<times> news_item list) list \<Rightarrow> news_item list
       \<Rightarrow> error + (string \<times> news_item list) list" where
  "group_from tz now groups [] = Inr groups"
| "group_from tz now groups (item # items) =
     (case groupLabel tz now item of
        Inl e \<Rightarrow> Inl e
      | Inr l \<Rightarrow> group_from tz now (push_group l item groups) items)"

definition groupedNews ::
    "int \<Rightarrow> int \<Rightarrow> news_item list \<Rightarrow> error + (string \<times> news_item list) list" where
  "groupedNews tz now items = group_from tz now [] items"

text \<open>
  The records of the rendered feed in reading order: the groups in their order, the
  records of each group in their order.
\<close>

definition items_of :: "(string \<times> news_item list) list \<Rightarrow> news_item list" where
  "items_of groups = concat (map snd groups)"

text \<open>The label of a record whose label exists, and the labels of a list in first-seen order.\<close>

definition label_of :: "int \<Rightarrow> int \<Rightarrow> news_item \<Rightarrow> string" where
  "label_of tz now item = (case groupLabel tz now item of Inr l \<Rightarrow> l | Inl e \<Rightarrow> [])"

definition firsts :: "'a list \<Rightarrow> 'a list" where
  "firsts xs = rev (remdups (rev xs))"

text \<open>
  A list regrouped by label: the records of the first label seen, in order, then those of
  the second label seen, and so on.
\<close>

definition flat :: "('a \<Rightarrow> 'l) \<Rightarrow> 'a list \<Rightarrow> 'a list" where
  "flat lab S = concat (map (\<lambda>l. filter (\<lambda>x. lab x = l) S) (firsts (map lab S)))"

text \<open>The feed of one render: the memoised list and its grouping.\<close>

definition ChronologicalGrouper ::
    "int \<Rightarrow> int \<Rightarrow> feed_state \<Rightarrow> news_item list option
       \<Rightarrow> error + (string \<times> news_item list) list" where
  "ChronologicalGrouper tz now fs news = groupedNews tz now (filteredAndSortedNews tz now fs news)"

section \<open>Doubles\<close>

text \<open>
  Rounding to the nearest double is monotone, leaves a double unchanged and yields a
  double.
\<close>

lemma double_overflow_eq: "double_overflow = 2 powi 1024"
  by (simp add: double_overflow_def)

lemma rne_of_int: "rne (of_int n) = n"
  by (simp add: rne_def)

lemma rne_floor_le: "\<lfloor>q\<rfloor> \<le> rne q"
  by (simp add: rne_def Let_def)

lemma rne_le_floor: "rne q \<le> \<lfloor>q\<rfloor> + 1"
  by (simp add: rne_def Let_def)

lemma rne_mono: "a \<le> b \<Longrightarrow> rne a \<le> rne b"
proof -
  assume ab: "a \<le> b"
  then have fl: "\<lfloor>a\<rfloor> \<le> \<lfloor>b\<rfloor>" by (rule floor_mono)
  show ?thesis
  proof (cases "\<lfloor>a\<rfloor> = \<lfloor>b\<rfloor>")
    case True
    with ab have "a - of_int \<lfloor>a\<rfloor> \<le> b - of_int \<lfloor>b\<rfloor>" by simp
    with True show ?thesis
      by (auto simp add: rne_def Let_def)
  next
    case False
    with fl have "\<lfloor>a\<rfloor> + 1 \<le> \<lfloor>b\<rfloor>" by simp
    with rne_le_floor [of a] rne_floor_le [of b] show ?thesis by linarith
  qed
qed

lemma rne_nonneg: "0 \<le> q \<Longrightarrow> 0 \<le> rne q"
  using rne_mono [of 0 q] rne_of_int [of 0] by simp

lemma two_powi_pos: "0 < (2::rat) powi e"
  by (simp add: power_int_def)

lemma two_powi_less: "e < e' \<Longrightarrow> (2::rat) powi e < 2 powi e'"
  by (rule power_int_strict_increasing) simp_all

lemma two_powi_le: "e \<le> e' \<Longrightarrow> (2::rat) powi e \<le> 2 powi e'"
  by (rule power_int_increasing) simp_all

lemma two_powi_less_imp: "(2::rat) powi e < 2 powi e' \<Longrightarrow> e < e'"
  using two_powi_le [of e' e] by (cases "e < e'") auto

lemma two_powi_add: "(2::rat) powi (a + b) = 2 powi a * 2 powi b"
  by (rule power_int_add) simp

lemma two_powi_diff: "(2::rat) powi (a - b) = 2 powi a / 2 powi b"
  by (rule power_int_diff) simp

lemma bitlen_powi:
  assumes "0 < p"
  shows "(2::rat) powi (bitlen p - 1) \<le> of_int p" and "of_int p < (2::rat) powi bitlen p"
proof -
  from assms have b: "1 \<le> bitlen p"
    by (metis bitlen_eq_zero_iff bitlen_nonneg int_one_le_iff_zero_less le_less not_le)
  from bitlen_bounds [OF assms]
  have lo: "2 ^ nat (bitlen p - 1) \<le> p" and hi: "p < 2 ^ nat (bitlen p)" by simp_all
  from lo have "(of_int (2 ^ nat (bitlen p - 1)) :: rat) \<le> of_int p"
    by (simp only: of_int_le_iff)
  with b show "(2::rat) powi (bitlen p - 1) \<le> of_int p"
    by (simp add: power_int_def)
  from hi have "(of_int p :: rat) < of_int (2 ^ nat (bitlen p))"
    by (simp only: of_int_less_iff)
  with b show "of_int p < (2::rat) powi bitlen p"
    by (simp add: power_int_def)
qed

lemma ilog2_bounds:
  assumes "0 < x"
  shows "2 powi ilog2 x \<le> x \<and> x < 2 powi (ilog2 x + 1)"
proof -
  obtain p q where pq: "quotient_of x = (p, q)" by (cases "quotient_of x")
  then have q: "0 < q" and x: "x = of_int p / of_int q"
    by (simp_all add: quotient_of_denom_pos quotient_of_div)
  with assms have p: "0 < p"
    by (simp add: zero_less_divide_iff)
  let ?d = "bitlen p - bitlen q"
  have "x < 2 powi bitlen p / 2 powi (bitlen q - 1)"
    unfolding x using bitlen_powi [OF p] bitlen_powi [OF q] q p
    by (intro frac_less) (simp_all add: two_powi_pos less_imp_le)
  then have hi: "x < 2 powi (?d + 1)"
    by (simp add: two_powi_diff [symmetric] algebra_simps)
  have "2 powi (bitlen p - 1) / 2 powi bitlen q < x"
    unfolding x using bitlen_powi [OF p] bitlen_powi [OF q] q p
    by (intro frac_less2) (simp_all add: two_powi_pos less_imp_le)
  then have lo: "2 powi (?d - 1) < x"
    by (simp add: two_powi_diff [symmetric] algebra_simps)
  from assms pq have "ilog2 x = (if 2 powi ?d \<le> x then ?d else ?d - 1)"
    by (simp add: ilog2_def)
  with lo hi show ?thesis
    by (auto simp add: not_le less_imp_le)
qed

lemma ilog2_unique:
  assumes "0 < x" "2 powi e \<le> x" "x < 2 powi (e + 1)"
  shows "ilog2 x = e"
proof -
  from ilog2_bounds [OF assms(1)] assms(3) have "(2::rat) powi ilog2 x < 2 powi (e + 1)"
    by simp
  then have "ilog2 x < e + 1" by (rule two_powi_less_imp)
  moreover from ilog2_bounds [OF assms(1)] assms(2) have "(2::rat) powi e < 2 powi (ilog2 x + 1)"
    by simp
  then have "e < ilog2 x + 1" by (rule two_powi_less_imp)
  ultimately show ?thesis by simp
qed

lemma ilog2_mono:
  assumes "0 < x" "x \<le> y"
  shows "ilog2 x \<le> ilog2 y"
proof -
  from assms have y: "0 < y" by simp
  from ilog2_bounds [OF assms(1)] ilog2_bounds [OF y] assms(2)
  have "(2::rat) powi ilog2 x < 2 powi (ilog2 y + 1)" by simp
  then have "ilog2 x < ilog2 y + 1" by (rule two_powi_less_imp)
  then show ?thesis by simp
qed


lemma ulp_exp_ge: "- 1074 \<le> ulp_exp x"
  by (simp add: ulp_exp_def)

lemma fl_abs_upper:
  assumes "0 < x"
  shows "fl_abs x \<le> 2 powi (ulp_exp x + 53)"
proof -
  let ?u = "(2::rat) powi ulp_exp x"
  have u: "0 < ?u" by (rule two_powi_pos)
  have "x < 2 powi (ilog2 x + 1)"
    using ilog2_bounds [OF assms] by simp
  also have "\<dots> \<le> 2 powi (ulp_exp x + 53)"
    by (rule two_powi_le) (simp add: ulp_exp_def)
  also have "\<dots> = 2 powi 53 * ?u"
    by (simp only: two_powi_add mult.commute)
  finally have "x / ?u \<le> 2 powi 53"
    using u by (simp add: pos_divide_le_eq less_imp_le)
  then have "x / ?u \<le> of_int (2 ^ 53)" by simp
  then have "rne (x / ?u) \<le> 2 ^ 53"
    using rne_mono rne_of_int by metis
  then have "(of_int (rne (x / ?u)) :: rat) \<le> of_int (2 ^ 53)"
    by (simp only: of_int_le_iff)
  then have "of_int (rne (x / ?u)) * ?u \<le> of_int (2 ^ 53) * ?u"
    using u by (simp only: mult_le_cancel_right_pos)
  also have "of_int (2 ^ 53) * ?u = 2 powi (ulp_exp x + 53)"
    by (simp add: two_powi_add)
  finally show ?thesis by (simp only: fl_abs_def)
qed

lemma fl_abs_lower:
  assumes "0 < x" "- 1022 \<le> ilog2 x"
  shows "2 powi (ulp_exp x + 52) \<le> fl_abs x"
proof -
  let ?u = "(2::rat) powi ulp_exp x"
  have u: "0 < ?u" by (rule two_powi_pos)
  from assms(2) have e: "ulp_exp x + 52 = ilog2 x" by (simp add: ulp_exp_def)
  have "2 powi 52 * ?u = 2 powi (ulp_exp x + 52)"
    by (simp only: two_powi_add mult.commute)
  also have "\<dots> \<le> x"
    using ilog2_bounds [OF assms(1)] by (simp add: e)
  finally have "of_int (2 ^ 52) \<le> x / ?u"
    using u by (simp add: pos_le_divide_eq)
  then have "2 ^ 52 \<le> rne (x / ?u)"
    using rne_mono rne_of_int by metis
  then have "(of_int (2 ^ 52) :: rat) \<le> of_int (rne (x / ?u))"
    by (simp only: of_int_le_iff)
  then have "of_int (2 ^ 52) * ?u \<le> of_int (rne (x / ?u)) * ?u"
    using u by (simp only: mult_le_cancel_right_pos)
  moreover have "of_int (2 ^ 52) * ?u = 2 powi (ulp_exp x + 52)"
    by (simp add: two_powi_add)
  ultimately show ?thesis by (simp only: fl_abs_def)
qed

lemma ulp_exp_mono: "0 < x \<Longrightarrow> x \<le> y \<Longrightarrow> ulp_exp x \<le> ulp_exp y"
  using ilog2_mono [of x y] by (simp add: ulp_exp_def)

lemma fl_abs_mono:
  assumes "0 < x" "x \<le> y"
  shows "fl_abs x \<le> fl_abs y"
proof (cases "ulp_exp x = ulp_exp y")
  case True
  let ?u = "(2::rat) powi ulp_exp y"
  have u: "0 < ?u" by (rule two_powi_pos)
  from assms u have "x / ?u \<le> y / ?u"
    by (intro divide_right_mono) simp_all
  then have "rne (x / ?u) \<le> rne (y / ?u)" by (rule rne_mono)
  then have "(of_int (rne (x / ?u)) :: rat) \<le> of_int (rne (y / ?u))"
    by (simp only: of_int_le_iff)
  then have "of_int (rne (x / ?u)) * ?u \<le> of_int (rne (y / ?u)) * ?u"
    using u by (simp only: mult_le_cancel_right_pos)
  then show ?thesis by (simp add: fl_abs_def True)
next
  case False
  with ulp_exp_mono [OF assms] have lt: "ulp_exp x < ulp_exp y" by simp
  from assms have y: "0 < y" by simp
  from lt ulp_exp_ge [of x] have "- 1022 \<le> ilog2 y"
    by (simp add: ulp_exp_def max_def split: if_splits)
  then have "2 powi (ulp_exp y + 52) \<le> fl_abs y"
    by (rule fl_abs_lower [OF y])
  moreover have "fl_abs x \<le> 2 powi (ulp_exp x + 53)"
    by (rule fl_abs_upper [OF assms(1)])
  moreover have "(2::rat) powi (ulp_exp x + 53) \<le> 2 powi (ulp_exp y + 52)"
    using lt by (intro two_powi_le) simp
  ultimately show ?thesis by linarith
qed

lemma fl_abs_nonneg: "0 < x \<Longrightarrow> 0 \<le> fl_abs x"
  by (simp add: fl_abs_def rne_nonneg two_powi_pos less_imp_le)

lemma fl_abs_fix:
  assumes "x = of_int m * 2 powi k" "ulp_exp x \<le> k"
  shows "fl_abs x = x"
proof -
  let ?j = "ulp_exp x"
  have "x / 2 powi ?j = of_int m * 2 powi (k - ?j)"
    by (simp add: assms(1) two_powi_diff)
  also have "\<dots> = of_int (m * 2 ^ nat (k - ?j))"
    using assms(2) by (simp add: power_int_def)
  finally have "rne (x / 2 powi ?j) = m * 2 ^ nat (k - ?j)"
    by (simp only: rne_of_int)
  then have "fl_abs x = of_int (m * 2 ^ nat (k - ?j)) * 2 powi ?j"
    by (simp only: fl_abs_def)
  also have "\<dots> = of_int m * (2 powi (k - ?j) * 2 powi ?j)"
    using assms(2) by (simp add: power_int_def)
  also have "\<dots> = x"
    by (simp add: assms(1) two_powi_add [symmetric])
  finally show ?thesis .
qed

lemma fl_abs_int:
  assumes "0 < n" "n < 2 ^ 53"
  shows "fl_abs (of_int n) = of_int n"
proof (rule fl_abs_fix [where m = n and k = 0])
  show "(of_int n :: rat) = of_int n * 2 powi 0" by simp
  have pos: "(0::rat) < of_int n" using assms(1) by simp
  have "(of_int n :: rat) < of_int (2 ^ 53)"
    using assms(2) by (simp only: of_int_less_iff)
  then have "(of_int n :: rat) < 2 powi 53" by simp
  with ilog2_bounds [OF pos] have "(2::rat) powi ilog2 (of_int n) < 2 powi 53" by simp
  then have "ilog2 (of_int n :: rat) < 53" by (rule two_powi_less_imp)
  then show "ulp_exp (of_int n) \<le> 0" by (simp add: ulp_exp_def)
qed

lemma fl_abs_min: "fl_abs (2 powi (- 1074)) = 2 powi (- 1074)"
proof (rule fl_abs_fix [where m = 1 and k = "- 1074"])
  show "(2::rat) powi (- 1074) = of_int 1 * 2 powi (- 1074)" by simp
  have "ilog2 (2 powi (- 1074)) = - 1074"
    by (rule ilog2_unique) (simp_all add: two_powi_pos two_powi_less)
  then show "ulp_exp (2 powi (- 1074)) \<le> - 1074" by (simp add: ulp_exp_def)
qed

lemma on_grid_intro: "x * 2 ^ 1074 = of_int n \<Longrightarrow> on_grid x"
  by (simp only: on_grid_def floor_of_int)

lemma fl_abs_on_grid: "on_grid (fl_abs x)"
proof -
  let ?j = "ulp_exp x"
  have "(2::rat) powi ?j * 2 ^ 1074 = 2 powi (?j + 1074)"
    by (simp add: two_powi_add)
  also have "\<dots> = of_int (2 ^ nat (?j + 1074))"
    using ulp_exp_ge [of x] by (simp add: power_int_def)
  finally have "fl_abs x * 2 ^ 1074 = of_int (rne (x / 2 powi ?j) * 2 ^ nat (?j + 1074))"
    by (simp add: fl_abs_def mult.assoc)
  then show ?thesis by (rule on_grid_intro)
qed

lemma on_gridD:
  assumes "on_grid x"
  shows "\<exists>n::int. x * 2 ^ 1074 = of_int n"
proof
  from assms show "x * 2 ^ 1074 = of_int \<lfloor>x * 2 ^ 1074\<rfloor>"
    unfolding on_grid_def by (rule sym)
qed

lemma on_grid_ge:
  assumes "on_grid x" "0 < x"
  shows "2 powi (- 1074) \<le> x"
proof -
  from on_gridD [OF assms(1)] obtain n :: int where n: "x * 2 ^ 1074 = of_int n" ..
  have "(0::rat) < x * 2 ^ 1074"
    using assms(2) by (intro mult_pos_pos) simp_all
  with n have "(0::rat) < of_int n" by (simp only:)
  then have "1 \<le> n" by simp
  then have "(1::rat) \<le> of_int n" by simp
  with n have le: "1 \<le> x * 2 ^ 1074" by (simp only:)
  have "(2::rat) powi (- 1074) = 1 / 2 ^ 1074"
    by (simp only: power_int_minus_divide power_int_numeral)
  also have "\<dots> \<le> x"
    using le by (simp only: pos_divide_le_eq zero_less_power zero_less_numeral)
  finally show ?thesis .
qed

lemma on_grid_minus:
  assumes "on_grid x"
  shows "on_grid (- x)"
proof -
  from on_gridD [OF assms] obtain n :: int where "x * 2 ^ 1074 = of_int n" ..
  then have "(- x) * 2 ^ 1074 = of_int (- n)"
    by (simp only: mult_minus_left of_int_minus)
  then show ?thesis by (rule on_grid_intro)
qed

lemma on_grid_diff:
  assumes "on_grid a" "on_grid b"
  shows "on_grid (a - b)"
proof -
  from on_gridD [OF assms(1)] obtain m :: int where m: "a * 2 ^ 1074 = of_int m" ..
  from on_gridD [OF assms(2)] obtain n :: int where n: "b * 2 ^ 1074 = of_int n" ..
  have "(a - b) * 2 ^ 1074 = a * 2 ^ 1074 - b * 2 ^ 1074"
    by (rule left_diff_distrib)
  also have "\<dots> = of_int (m - n)"
    by (simp only: m n of_int_diff)
  finally show ?thesis by (rule on_grid_intro)
qed

lemma on_grid_int: "on_grid (of_int n)"
proof -
  have "(of_int n :: rat) * 2 ^ 1074 = of_int (n * 2 ^ 1074)"
    by (simp only: of_int_mult of_int_power of_int_numeral)
  then show ?thesis by (rule on_grid_intro)
qed

lemma fl_on_grid: "fl x = Fin y \<Longrightarrow> on_grid y"
  using fl_abs_on_grid [of "\<bar>x\<bar>"] on_grid_int [of 0]
  by (auto simp add: fl_def Let_def double_overflow_eq on_grid_minus split: if_splits)

lemma fl_pos:
  assumes "on_grid x" "0 < x"
  shows "js_gt (fl x) (Fin 0)"
proof -
  have "2 powi (- 1074) \<le> fl_abs x"
    using fl_abs_mono [OF two_powi_pos on_grid_ge [OF assms]] by (simp only: fl_abs_min)
  with two_powi_pos [of "- 1074"] have "0 < fl_abs x" by linarith
  with assms(2) show ?thesis
    by (simp add: fl_def Let_def double_overflow_eq)
qed

lemma fl_nonpos: "x \<le> 0 \<Longrightarrow> \<not> js_gt (fl x) (Fin 0)"
  using fl_abs_nonneg [of "\<bar>x\<bar>"] by (auto simp add: fl_def Let_def double_overflow_eq)

lemma fl_bounded:
  assumes "0 \<le> x" "x \<le> K" "fl_abs K = K" "K < 2 powi 1024"
  shows "\<exists>y. fl x = Fin y \<and> 0 \<le> y \<and> y \<le> K \<and> on_grid y"
proof (cases "x = 0")
  case True
  with assms show ?thesis
    using on_grid_int [of 0] by (simp add: fl_def)
next
  case False
  with assms(1) have x: "0 < x" by simp
  have "fl_abs x \<le> K"
    using fl_abs_mono [OF x assms(2)] by (simp only: assms(3))
  with assms(4) x show ?thesis
    using fl_abs_nonneg [OF x] fl_abs_on_grid [of x] by (simp add: fl_def Let_def double_overflow_eq)
qed

text \<open>Integers below \<open>2^53\<close> are doubles, and rounding keeps a bound that is a double.\<close>

lemma fl_int:
  assumes "0 \<le> n" "n < 2 ^ 53"
  shows "fl (of_int n) = Fin (of_int n)"
proof (cases "n = 0")
  case True
  then show ?thesis by (simp add: fl_def)
next
  case False
  with assms(1) have n: "0 < n" by simp
  have "(of_int n :: rat) < of_int (2 ^ 53)"
    using assms(2) by (simp only: of_int_less_iff)
  also have "(of_int (2 ^ 53) :: rat) = 2 powi 53" by simp
  also have "(2::rat) powi 53 < 2 powi 1024" by (rule two_powi_less) simp
  finally have "(of_int n :: rat) < 2 powi 1024" .
  with n show ?thesis
    by (simp add: fl_def Let_def double_overflow_eq fl_abs_int [OF n assms(2)])
qed

lemma fl_numeral: "(numeral k :: int) < 2 ^ 53 \<Longrightarrow> fl (numeral k) = Fin (numeral k)"
  using fl_int [of "numeral k"] by simp

lemma fl_bounded_int:
  assumes "0 \<le> x" "x \<le> of_int K" "0 < K" "K < 2 ^ 53"
  shows "\<exists>y. fl x = Fin y \<and> 0 \<le> y \<and> y \<le> of_int K \<and> on_grid y"
proof (rule fl_bounded [OF assms(1) assms(2)])
  show "fl_abs (of_int K) = of_int K" by (rule fl_abs_int [OF assms(3) assms(4)])
  have "(of_int K :: rat) < of_int (2 ^ 53)"
    using assms(4) by (simp only: of_int_less_iff)
  also have "(of_int (2 ^ 53) :: rat) = 2 powi 53" by simp
  also have "(2::rat) powi 53 < 2 powi 1024" by (rule two_powi_less) simp
  finally show "(of_int K :: rat) < 2 powi 1024" .
qed

text \<open>
  The sign of a difference of two numbers that a comparator can order is the sign of the
  exact difference: the comparator \<open>b - a\<close> orders by the key.
\<close>

lemma ok_key_cases:
  assumes "ok_key a"
  obtains r where "a = Fin r" "on_grid r" | "a = PInf" | "a = NInf"
  using assms by (cases a) auto

lemma js_sub_sign:
  assumes "ok_key a" "ok_key b"
  shows "js_gt (js_sub b a) (Fin 0) \<longleftrightarrow> desc_key a > desc_key b"
proof -
  have fin: "js_gt (fl (s - r)) (Fin 0) \<longleftrightarrow> r < s" if "on_grid r" "on_grid s" for r s
  proof (cases "r < s")
    case True
    then show ?thesis
      using fl_pos [OF on_grid_diff [OF that(2) that(1)]] by simp
  next
    case False
    then show ?thesis
      using fl_nonpos [of "s - r"] by simp
  qed
  show ?thesis
  proof (rule ok_key_cases [OF assms(1)]; rule ok_key_cases [OF assms(2)])
    fix r s assume "a = Fin r" "on_grid r" "b = Fin s" "on_grid s"
    then show ?thesis
      using fin [of r s] by (simp add: js_sub_def less_prod_def)
  qed (simp_all add: js_sub_def less_prod_def)
qed

lemma ToNumber_ok: "ToNumber v \<noteq> NaN \<Longrightarrow> ok_key (ToNumber v)"
proof (cases v)
  case (Number r)
  assume "ToNumber v \<noteq> NaN"
  with Number show ?thesis
    using fl_on_grid [of r] by (cases "fl r") simp_all
next
  case Null
  then show ?thesis using on_grid_int [of 0] by simp
qed simp

section \<open>The stable sort\<close>

text \<open>
  The sort permutes its input, and on a comparator that orders by a key it is the stable
  insertion sort \<open>sort_key\<close> of the library.
\<close>

lemma mset_js_insert: "mset (js_insert cmp x ys) = add_mset x (mset ys)"
  by (induction ys) simp_all

lemma mset_js_sort: "mset (js_sort cmp xs) = mset xs"
  by (induction xs) (simp_all add: mset_js_insert)

lemma set_js_sort: "set (js_sort cmp xs) = set xs"
  using mset_js_sort [of cmp xs] by (metis set_mset_mset)

lemma js_insert_eq_insort_key:
  "(\<And>y. y \<in> set ys \<Longrightarrow> js_gt (cmp x y) (Fin 0) \<longleftrightarrow> k x > k y) \<Longrightarrow>
     js_insert cmp x ys = insort_key k x ys"
  for k :: "'a \<Rightarrow> 'b::linorder"
  by (induction ys) (auto simp add: not_less)

lemma js_sort_eq_sort_key:
  "(\<And>x y. x \<in> set xs \<Longrightarrow> y \<in> set xs \<Longrightarrow> js_gt (cmp x y) (Fin 0) \<longleftrightarrow> k x > k y) \<Longrightarrow>
     js_sort cmp xs = sort_key k xs"
  for k :: "'a \<Rightarrow> 'b::linorder"
proof (induction xs)
  case Nil
  show ?case by simp
next
  case (Cons x xs)
  have "js_sort cmp xs = sort_key k xs"
    by (rule Cons.IH) (simp add: Cons.prems)
  moreover have "js_insert cmp x (sort_key k xs) = insort_key k x (sort_key k xs)"
    by (rule js_insert_eq_insort_key) (simp add: Cons.prems)
  ultimately show ?case by simp
qed


lemma js_sort_descending:
  assumes "\<And>x. x \<in> set xs \<Longrightarrow> ok_key (key x)"
  shows "js_sort (\<lambda>a b. js_sub (key b) (key a)) xs = sort_key (\<lambda>x. desc_key (key x)) xs"
proof (rule js_sort_eq_sort_key)
  fix x y assume "x \<in> set xs" "y \<in> set xs"
  then have "ok_key (key x)" "ok_key (key y)"
    using assms by simp_all
  then show "js_gt (js_sub (key y) (key x)) (Fin 0) \<longleftrightarrow> desc_key (key x) > desc_key (key y)"
    by (rule js_sub_sign)
qed

section \<open>TimeWindowResolver\<close>

text \<open>The month computed from a day number is one of the twelve.\<close>

lemma mod12_range: "1 \<le> X mod 12 + 1 \<and> X mod 12 + 1 \<le> (12::int)"
proof -
  have "0 \<le> X mod 12" "X mod 12 < 12" by simp_all
  then show ?thesis by linarith
qed

lemma civil_month_range:
  "1 \<le> fst (snd (civil_from_days z)) \<and> fst (snd (civil_from_days z)) \<le> 12"
  unfolding civil_from_days_def Let_def snd_conv fst_conv by (rule mod12_range)

text \<open>The month name that \<open>format\<close> looks up always exists.\<close>

lemma month_name_defined: "nat (fst (snd (civil_from_days z)) - 1) < length month_names"
proof -
  have "length month_names = 12" by (simp add: month_names_def)
  with civil_month_range [of z] show ?thesis by linarith
qed

text \<open>The two Daily cutoffs: 24 hours back, and the local midnight of the day.\<close>

lemma daily_cutoff_gap:
  "\<exists>a f. analytics_startDate tz now Daily = Some a \<and> feed_startDate tz now Daily = Some f
     \<and> a < f \<and> f \<le> now"
proof -
  have "0 \<le> (now + tz) mod ms_per_day" "(now + tz) mod ms_per_day < ms_per_day"
    by (simp_all add: ms_per_day_def)
  then show ?thesis
    by (simp add: subHours_def startOfDay_def ms_per_hour_def ms_per_day_def)
qed

lemma feed_daily_is_midnight:
  "\<exists>f. feed_startDate tz now Daily = Some f \<and> (f + tz) mod ms_per_day = 0
     \<and> f \<le> now \<and> now < f + ms_per_day"
proof -
  let ?r = "(now + tz) mod ms_per_day"
  have r: "0 \<le> ?r" "?r < ms_per_day"
    by (simp_all add: ms_per_day_def)
  have "(now - ?r + tz) mod ms_per_day = (now + tz - ?r) mod ms_per_day"
    by (simp add: algebra_simps)
  also have "\<dots> = 0"
    by (simp add: minus_mod_eq_mult_div)
  finally have "(now - ?r + tz) mod ms_per_day = 0" .
  with r show ?thesis
    by (simp add: startOfDay_def)
qed

lemma analytics_daily_is_24h: "analytics_startDate tz now Daily = Some (now - 24 * ms_per_hour)"
  by (simp add: subHours_def)

text \<open>
  Claim C5. For the same reference instant the news feed takes the start of the current
  calendar day as the Daily cutoff (the local midnight at or before the instant) and the
  analytics view takes the instant 24 hours earlier: at some instant the two cutoffs
  differ, while the Weekly, Monthly and Yearly cutoffs of the two views agree at every
  instant.
\<close>

theorem daily_cutoffs_differ:
  "(\<exists>now. feed_startDate tz now Daily \<noteq> analytics_startDate tz now Daily)
   \<and> (\<forall>now. \<exists>f. feed_startDate tz now Daily = Some f \<and> (f + tz) mod ms_per_day = 0
          \<and> f \<le> now \<and> now < f + ms_per_day)
   \<and> (\<forall>now. analytics_startDate tz now Daily = Some (now - 24 * ms_per_hour))
   \<and> (\<forall>now. feed_startDate tz now Weekly = analytics_startDate tz now Weekly
          \<and> feed_startDate tz now Monthly = analytics_startDate tz now Monthly
          \<and> feed_startDate tz now Yearly = analytics_startDate tz now Yearly)"
proof -
  obtain a f where "analytics_startDate tz 0 Daily = Some a" "feed_startDate tz 0 Daily = Some f"
      "a < f"
    using daily_cutoff_gap [of tz 0] by blast
  then have "feed_startDate tz 0 Daily \<noteq> analytics_startDate tz 0 Daily"
    by simp
  then have "\<exists>now. feed_startDate tz now Daily \<noteq> analytics_startDate tz now Daily" ..
  moreover have "\<forall>now. feed_startDate tz now Weekly = analytics_startDate tz now Weekly
          \<and> feed_startDate tz now Monthly = analytics_startDate tz now Monthly
          \<and> feed_startDate tz now Yearly = analytics_startDate tz now Yearly"
    by simp
  ultimately show ?thesis
    using feed_daily_is_midnight analytics_daily_is_24h by blast
qed

theorem daily_cutoffs_witness:
  "feed_startDate 0 1700000000000 Daily = Some 1699920000000
   \<and> analytics_startDate 0 1700000000000 Daily = Some 1699913600000
   \<and> feed_startDate 0 1700000000000 Monthly = analytics_startDate 0 1700000000000 Monthly"
  using daily_cutoffs_differ [of 0]
  by (simp add: subHours_def startOfDay_def ms_per_hour_def ms_per_day_def)

section \<open>IndustryImpactAggregator\<close>

lemma map_of_set_prop: "map_of (set_prop k v ps) = (map_of ps)(k \<mapsto> v)"
  by (induction ps) auto

lemma keys_set_prop:
  "map fst (set_prop k v ps) = (if k \<in> fst ` set ps then map fst ps else map fst ps @ [k])"
  by (induction ps) force+

lemma distinct_set_prop:
  "distinct (map fst ps) \<Longrightarrow> distinct (map fst (set_prop k v ps))"
  by (simp add: keys_set_prop)

lemma mset_object_entries: "mset (object_entries ps) = mset ps"
  by (simp add: object_entries_def)

lemma set_object_values: "set (object_values ps) = snd ` set ps"
  using mset_object_entries [of ps] by (metis object_values_def set_map set_mset_mset)

lemma js_sum_snoc: "js_sum (xs @ [x]) = js_add (js_sum xs) x"
  by (simp add: js_sum_def)

lemma group_of_snoc:
  "group_of t (xs @ [x]) = (if resolved_tag x = t then group_of t xs @ [x] else group_of t xs)"
  by (simp add: group_of_def)

lemma group_agg_snoc_other:
  "resolved_tag x \<noteq> t \<Longrightarrow> group_agg (xs @ [x]) t = group_agg xs t"
  by (simp add: group_agg_def group_of_snoc)

lemma group_agg_snoc_same:
  "group_agg (xs @ [x]) (resolved_tag x)
     = (group_agg xs (resolved_tag x))
         \<lparr>agg_score := js_add (agg_score (group_agg xs (resolved_tag x))) (ToNumber (impact_score x)),
          agg_count := js_add (agg_count (group_agg xs (resolved_tag x))) (Fin 1)\<rparr>"
  by (simp add: group_agg_def group_of_snoc js_sum_snoc)

lemma group_agg_absent:
  "t \<notin> resolved_tag ` set xs \<Longrightarrow>
     group_agg xs t = \<lparr>agg_name = t, agg_score = Fin 0, agg_count = Fin 0\<rparr>"
proof -
  assume "t \<notin> resolved_tag ` set xs"
  then have "group_of t xs = []"
    by (auto simp add: group_of_def filter_empty_conv)
  then show ?thesis by (simp add: group_agg_def js_sum_def)
qed

lemma group_tags_snoc:
  "group_tags (xs @ [x]) =
     (if resolved_tag x \<in> set inherited_keys then group_tags xs
      else insert (resolved_tag x) (group_tags xs))"
  by (auto simp add: group_tags_def)

lemma aggregation_invariant:
  "distinct (map fst (foldl aggregate [] xs))
   \<and> map_of (foldl aggregate [] xs)
       = (\<lambda>t. if t \<in> group_tags xs then Some (group_agg xs t) else None)"
proof (induction xs rule: rev_induct)
  case Nil
  show ?case by (simp add: group_tags_def)
next
  case (snoc x xs)
  let ?A = "foldl aggregate [] xs"
  let ?tag = "resolved_tag x"
  show ?case
  proof (cases "?tag \<in> set inherited_keys")
    case True
    then have step: "aggregate ?A x = ?A"
      by (simp add: aggregate_def resolved_tag_def)
    have "\<And>t. t \<in> group_tags xs \<Longrightarrow> group_agg (xs @ [x]) t = group_agg xs t"
      using True by (intro group_agg_snoc_other) (auto simp add: group_tags_def)
    with True snoc show ?thesis
      by (auto simp add: step group_tags_snoc)
  next
    case False
    have cur: "(case map_of ?A ?tag of
                 None \<Rightarrow> \<lparr>agg_name = ?tag, agg_score = Fin 0, agg_count = Fin 0\<rparr>
               | Some a \<Rightarrow> a) = group_agg xs ?tag"
    proof (cases "?tag \<in> group_tags xs")
      case True
      with snoc show ?thesis by simp
    next
      case notin: False
      with False have "?tag \<notin> resolved_tag ` set xs"
        by (simp add: group_tags_def)
      with notin snoc show ?thesis by (simp add: group_agg_absent)
    qed
    have step: "aggregate ?A x = set_prop ?tag (group_agg (xs @ [x]) ?tag) ?A"
      using False cur
      by (simp add: aggregate_def Let_def group_agg_snoc_same flip: resolved_tag_def)
    have "map_of (set_prop ?tag (group_agg (xs @ [x]) ?tag) ?A)
        = (\<lambda>t. if t \<in> group_tags (xs @ [x]) then Some (group_agg (xs @ [x]) t) else None)"
      using False snoc
      by (auto simp add: map_of_set_prop group_tags_snoc fun_eq_iff group_agg_snoc_other)
    with snoc show ?thesis
      by (simp add: step distinct_set_prop)
  qed
qed

lemma ran_if_Some: "ran (\<lambda>t. if t \<in> T then Some (g t) else None) = g ` T"
  by (auto simp add: ran_def)

lemma set_aggregation:
  "snd ` set (foldl aggregate [] xs) = group_agg xs ` group_tags xs"
proof -
  from aggregation_invariant [of xs]
  have d: "distinct (map fst (foldl aggregate [] xs))"
    and m: "map_of (foldl aggregate [] xs)
        = (\<lambda>t. if t \<in> group_tags xs then Some (group_agg xs t) else None)"
    by simp_all
  from d have "snd ` set (foldl aggregate [] xs) = ran (map_of (foldl aggregate [] xs))"
    by (simp only: ran_distinct)
  also have "\<dots> = group_agg xs ` group_tags xs"
    by (simp only: m ran_if_Some)
  finally show ?thesis .
qed

lemma aggregation_names:
  "map (\<lambda>p. agg_name (snd p)) (foldl aggregate [] xs) = map fst (foldl aggregate [] xs)"
proof (rule map_cong [OF refl])
  fix p assume p: "p \<in> set (foldl aggregate [] xs)"
  obtain k a where ka: "p = (k, a)" by (cases p)
  with p have pk: "(k, a) \<in> set (foldl aggregate [] xs)"
    by simp
  from aggregation_invariant [of xs] have d: "distinct (map fst (foldl aggregate [] xs))"
    by simp
  have "map_of (foldl aggregate [] xs) k = Some a"
    by (rule map_of_is_SomeI [OF d pk])
  then have "a = group_agg xs k"
    using aggregation_invariant [of xs] by (simp split: if_splits)
  with ka show "agg_name (snd p) = fst p"
    by (simp add: group_agg_def)
qed

lemma rank_name_mean_entry: "rank_name (mean_entry a) = agg_name a"
  by (simp add: mean_entry_def)

lemma ranking_names_distinct: "distinct (map rank_name (industryImpactData xs))"
proof -
  let ?A = "foldl aggregate [] xs"
  have "mset (map rank_name (industryImpactData xs))
      = mset (map rank_name (map mean_entry (object_values ?A)))"
    unfolding industryImpactData_def by (simp only: mset_map mset_js_sort)
  also have "\<dots> = mset (map (\<lambda>p. agg_name (snd p)) (object_entries ?A))"
    by (simp add: object_values_def comp_def rank_name_mean_entry)
  also have "\<dots> = mset (map (\<lambda>p. agg_name (snd p)) ?A)"
    by (simp only: mset_map mset_object_entries)
  also have "\<dots> = mset (map fst ?A)"
    by (simp only: aggregation_names)
  finally have "mset (map rank_name (industryImpactData xs)) = mset (map fst ?A)" .
  moreover have "distinct (map fst ?A)"
    using aggregation_invariant [of xs] by simp
  ultimately show ?thesis
    by (metis mset_eq_imp_distinct_iff)
qed

lemma set_ranking:
  "set (industryImpactData xs) = (\<lambda>t. mean_entry (group_agg xs t)) ` group_tags xs"
  by (simp add: industryImpactData_def set_js_sort set_object_values set_aggregation image_image)

lemma filter_distinct_key:
  "distinct (map f xs) \<Longrightarrow> x \<in> set xs \<Longrightarrow> filter (\<lambda>e. f e = f x) xs = [x]"
proof (induction xs)
  case Nil
  then show ?case by simp
next
  case (Cons y ys)
  show ?case
  proof (cases "x = y")
    case True
    from Cons.prems(1) have "f y \<notin> f ` set ys" by simp
    then have "\<And>e. e \<in> set ys \<Longrightarrow> f e \<noteq> f y" by (metis image_eqI)
    then have "filter (\<lambda>e. f e = f y) ys = []"
      by (simp add: filter_empty_conv)
    with True show ?thesis by simp
  next
    case False
    with Cons.prems(2) have x: "x \<in> set ys" by simp
    with Cons.prems(1) have "f y \<noteq> f x" by auto
    with Cons.IH [OF _ x] Cons.prems(1) show ?thesis by simp
  qed
qed

lemma agg_name_group_agg: "agg_name (group_agg xs t) = t"
  by (simp add: group_agg_def)

lemma ranking_entry:
  assumes "t \<notin> set inherited_keys"
  shows "filter (\<lambda>e. rank_name e = t) (industryImpactData rawNews)
      = (if t \<in> resolved_tag ` set rawNews then [mean_entry (group_agg rawNews t)] else [])"
proof (cases "t \<in> resolved_tag ` set rawNews")
  case True
  let ?e = "mean_entry (group_agg rawNews t)"
  from True assms have "t \<in> group_tags rawNews" by (simp add: group_tags_def)
  then have "?e \<in> set (industryImpactData rawNews)" by (simp add: set_ranking)
  with ranking_names_distinct [of rawNews]
  have "filter (\<lambda>e. rank_name e = rank_name ?e) (industryImpactData rawNews) = [?e]"
    by (rule filter_distinct_key)
  with True show ?thesis
    by (simp add: rank_name_mean_entry agg_name_group_agg)
next
  case False
  have "rank_name e \<noteq> t" if "e \<in> set (industryImpactData rawNews)" for e
  proof -
    from that obtain t' where "t' \<in> group_tags rawNews" "e = mean_entry (group_agg rawNews t')"
      by (auto simp add: set_ranking)
    with False show ?thesis
      by (auto simp add: rank_name_mean_entry agg_name_group_agg group_tags_def)
  qed
  then have "filter (\<lambda>e. rank_name e = t) (industryImpactData rawNews) = []"
    by (simp add: filter_empty_conv)
  with False show ?thesis by simp
qed

lemma foldl_js_add_NaN: "foldl js_add NaN xs = NaN"
  by (induction xs) simp_all

lemma js_add_NaN_right: "js_add a NaN = NaN"
  by (cases a) simp_all

lemma js_sum_NaN: "NaN \<in> set xs \<Longrightarrow> foldl js_add a xs = NaN"
  by (induction xs arbitrary: a) (auto simp add: foldl_js_add_NaN js_add_NaN_right)

lemma group_score_NaN:
  assumes "item \<in> set rawNews" "impact_score item = Undefined"
  shows "rank_score (mean_entry (group_agg rawNews (resolved_tag item))) = NaN"
proof -
  from assms(1) have "item \<in> set (group_of (resolved_tag item) rawNews)"
    by (simp add: group_of_def)
  with assms(2) have "NaN \<in> set (map (\<lambda>item. ToNumber (impact_score item))
      (group_of (resolved_tag item) rawNews))"
    by force
  then have "agg_score (group_agg rawNews (resolved_tag item)) = NaN"
    by (simp only: group_agg_def js_sum_def js_sum_NaN agg.simps)
  then show ?thesis by (simp add: mean_entry_def)
qed

text \<open>
  Claim C2, as stated, fails: a record without \<open>impact_score\<close> makes a group of its own
  tag, with the score \<open>NaN\<close>.
\<close>

theorem ranking_undefined_counterexample:
  "industryImpactData [blank_item\<lparr>industry_tag := Some ''Steel''\<rparr>]
     = [\<lparr>rank_name = ''Steel'', rank_score = NaN\<rparr>]"
  by code_simp

text \<open>
  Claim C2, amended. For every list of records the IndustryRanking view is computed from
  all records, with or without \<open>impact_score\<close>. For every tag that is not the name of a
  property inherited from \<open>Object.prototype\<close>: the ranking has an entry of that tag
  exactly when some record has the tag (an absent tag being \<open>General\<close>), it has only
  one, and its score is \<open>toFixed(1)\<close> of the quotient of the sum of the \<open>impact_score\<close>
  values of all records of the tag by the number of all records of the tag. In that sum
  a missing \<open>impact_score\<close> is \<open>NaN\<close>, which makes the score of the entry \<open>NaN\<close>, and
  a \<open>null\<close> one is 0.
\<close>

theorem ranking_counts_every_item:
  "(t \<notin> set inherited_keys \<longrightarrow>
      filter (\<lambda>e. rank_name e = t) (industryImpactData rawNews)
        = (if t \<in> resolved_tag ` set rawNews then [mean_entry (group_agg rawNews t)] else []))
   \<and> (item \<in> set rawNews \<and> impact_score item = Undefined \<longrightarrow>
        rank_score (mean_entry (group_agg rawNews (resolved_tag item))) = NaN)
   \<and> ToNumber Undefined = NaN \<and> ToNumber Null = Fin 0"
  by (simp add: ranking_entry group_score_NaN)

theorem ranking_counts_every_item_witness:
  "''EV'' \<notin> set inherited_keys
   \<and> blank_item\<lparr>industry_tag := Some ''EV''\<rparr> \<in> set
      [blank_item\<lparr>industry_tag := Some ''EV'', impact_score := Number 8\<rparr>,
       blank_item\<lparr>industry_tag := Some ''Steel'', impact_score := Number 5\<rparr>,
       blank_item\<lparr>impact_score := Number 4\<rparr>,
       blank_item\<lparr>industry_tag := Some ''EV''\<rparr>]
   \<and> impact_score (blank_item\<lparr>industry_tag := Some ''EV''\<rparr>) = Undefined
   \<and> filter (\<lambda>e. rank_name e = ''EV'') (industryImpactData
      [blank_item\<lparr>industry_tag := Some ''EV'', impact_score := Number 8\<rparr>,
       blank_item\<lparr>industry_tag := Some ''Steel'', impact_score := Number 5\<rparr>,
       blank_item\<lparr>impact_score := Number 4\<rparr>,
       blank_item\<lparr>industry_tag := Some ''EV''\<rparr>])
     = [\<lparr>rank_name = ''EV'', rank_score = NaN\<rparr>]"
proof -
  have h: "''EV'' \<notin> set inherited_keys"
    by (simp add: inherited_keys_def)
  have m: "''EV'' \<in> resolved_tag ` set
      [blank_item\<lparr>industry_tag := Some ''EV'', impact_score := Number 8\<rparr>,
       blank_item\<lparr>industry_tag := Some ''Steel'', impact_score := Number 5\<rparr>,
       blank_item\<lparr>impact_score := Number 4\<rparr>,
       blank_item\<lparr>industry_tag := Some ''EV''\<rparr>]"
    by (simp add: resolved_tag_def blank_item_def)
  have u: "impact_score (blank_item\<lparr>industry_tag := Some ''EV''\<rparr>) = Undefined"
    by (simp add: blank_item_def)
  have r: "resolved_tag (blank_item\<lparr>industry_tag := Some ''EV''\<rparr>) = ''EV''"
    by (simp add: resolved_tag_def)
  have n: "rank_name (mean_entry (group_agg
      [blank_item\<lparr>industry_tag := Some ''EV'', impact_score := Number 8\<rparr>,
       blank_item\<lparr>industry_tag := Some ''Steel'', impact_score := Number 5\<rparr>,
       blank_item\<lparr>impact_score := Number 4\<rparr>,
       blank_item\<lparr>industry_tag := Some ''EV''\<rparr>] ''EV'')) = ''EV''"
    by (simp add: rank_name_mean_entry agg_name_group_agg)
  from ranking_counts_every_item [of "''EV''"
      "[blank_item\<lparr>industry_tag := Some ''EV'', impact_score := Number 8\<rparr>,
       blank_item\<lparr>industry_tag := Some ''Steel'', impact_score := Number 5\<rparr>,
       blank_item\<lparr>impact_score := Number 4\<rparr>,
       blank_item\<lparr>industry_tag := Some ''EV''\<rparr>]"
      "blank_item\<lparr>industry_tag := Some ''EV''\<rparr>"] h m u r n
  show ?thesis
    by (cases "mean_entry (group_agg
      [blank_item\<lparr>industry_tag := Some ''EV'', impact_score := Number 8\<rparr>,
       blank_item\<lparr>industry_tag := Some ''Steel'', impact_score := Number 5\<rparr>,
       blank_item\<lparr>impact_score := Number 4\<rparr>,
       blank_item\<lparr>industry_tag := Some ''EV''\<rparr>] ''EV'')") simp
qed

lemma round_tenth_bounds: "0 \<le> x \<Longrightarrow> x \<le> 10 \<Longrightarrow> 0 \<le> round_tenth x \<and> round_tenth x \<le> 10"
proof -
  assume x: "0 \<le> x" "x \<le> 10"
  then have "0 \<le> \<lfloor>x * 10 + 1 / 2\<rfloor>"
    by simp
  moreover from x have "x * 10 + 1 / 2 < 101"
    by simp
  then have "\<lfloor>x * 10 + 1 / 2\<rfloor> < 101"
    by (simp add: floor_less_iff)
  then have "\<lfloor>x * 10 + 1 / 2\<rfloor> \<le> 100"
    by simp
  then have "(of_int \<lfloor>x * 10 + 1 / 2\<rfloor> :: rat) \<le> 100"
    by (metis of_int_le_iff of_int_numeral)
  ultimately show ?thesis
    using x by (simp add: round_tenth_def)
qed

lemma fl_unit_range:
  assumes "0 \<le> x" "x \<le> 10"
  shows "\<exists>y. fl x = Fin y \<and> 0 \<le> y \<and> y \<le> 10 \<and> on_grid y"
  using fl_bounded_int [of x 10] assms by simp

lemma impact_number_in_range:
  assumes "impact_in_range item"
  shows "\<exists>r. ToNumber (impact_score item) = Fin r \<and> 0 \<le> r \<and> r \<le> 10"
proof -
  from assms obtain q where "impact_score item = Number q" "0 \<le> q" "q \<le> 10"
    by (auto simp add: impact_in_range_def split: jsval.splits)
  with fl_unit_range [of q] show ?thesis by auto
qed

lemma js_sum_in_range:
  "list_all impact_in_range ys \<Longrightarrow> length ys < 2 ^ 32 \<Longrightarrow>
     \<exists>s. js_sum (map (\<lambda>item. ToNumber (impact_score item)) ys) = Fin s
        \<and> 0 \<le> s \<and> s \<le> 10 * of_nat (length ys)"
proof (induction ys rule: rev_induct)
  case Nil
  show ?case by (simp add: js_sum_def)
next
  case (snoc y ys)
  then obtain s where s: "js_sum (map (\<lambda>item. ToNumber (impact_score item)) ys) = Fin s"
      "0 \<le> s" "s \<le> 10 * of_nat (length ys)"
    by auto
  from snoc.prems(1) obtain r where r: "ToNumber (impact_score y) = Fin r" "0 \<le> r" "r \<le> 10"
    using impact_number_in_range [of y] by auto
  let ?K = "10 * (int (length ys) + 1)"
  have K: "0 < ?K" "?K < 2 ^ 53"
    using snoc.prems(2) by simp_all
  have "s + r \<le> of_int ?K"
    using s(3) r(3) by simp
  with s(2) r(2) K obtain v where v: "fl (s + r) = Fin v" "0 \<le> v" "v \<le> of_int ?K"
    using fl_bounded_int [of "s + r" ?K] by auto
  have "js_sum (map (\<lambda>item. ToNumber (impact_score item)) (ys @ [y])) = Fin v"
    using s(1) r(1) v(1) by (simp add: js_sum_snoc)
  moreover have "v \<le> 10 * of_nat (length (ys @ [y]))"
    using v(3) by simp
  ultimately show ?case using v(2) by blast
qed

lemma js_count_exact: "n < 2 ^ 53 \<Longrightarrow> js_count n = Fin (of_nat n)"
proof (induction n)
  case 0
  show ?case by simp
next
  case (Suc n)
  then have n: "js_count n = Fin (of_nat n)" by simp
  have "fl (of_int (int (Suc n))) = Fin (of_int (int (Suc n)))"
    using Suc.prems by (intro fl_int) simp_all
  then have "fl (of_nat n + 1) = Fin (of_nat (Suc n))"
    by (simp add: add.commute)
  with n show ?case by simp
qed

lemma mean_entry_in_range:
  assumes "list_all impact_in_range xs" and "length xs < 2 ^ 32" and "t \<in> group_tags xs"
  shows "\<exists>v. rank_score (mean_entry (group_agg xs t)) = Fin v \<and> 0 \<le> v \<and> v \<le> 10 \<and> on_grid v"
proof -
  let ?g = "group_of t xs"
  from assms(3) have "?g \<noteq> []"
    by (auto simp add: group_tags_def group_of_def filter_empty_conv)
  then have n: "0 < length ?g" by simp
  have len: "length ?g \<le> length xs"
    by (simp add: group_of_def)
  with assms(2) have small: "length ?g < 2 ^ 32" by simp
  from assms(1) have "list_all impact_in_range ?g"
    by (simp add: group_of_def list_all_iff)
  then obtain s where s: "js_sum (map (\<lambda>item. ToNumber (impact_score item)) ?g) = Fin s"
      "0 \<le> s" "s \<le> 10 * of_nat (length ?g)"
    using js_sum_in_range [OF _ small] by blast
  from small have "length ?g < 2 ^ 53"
    by (rule less_trans) simp
  then have c: "js_count (length ?g) = Fin (of_nat (length ?g))"
    by (rule js_count_exact)
  let ?m = "s / of_nat (length ?g)"
  from s n have m: "0 \<le> ?m" "?m \<le> 10"
    by (simp_all add: divide_le_eq)
  then obtain w where w: "fl ?m = Fin w" "0 \<le> w" "w \<le> 10"
    using fl_unit_range by blast
  from w have "\<not> \<bar>w\<bar> \<ge> 10 ^ 21" by simp
  moreover from round_tenth_bounds [OF w(2) w(3)]
  obtain v where "fl (round_tenth w) = Fin v" "0 \<le> v" "v \<le> 10" "on_grid v"
    using fl_unit_range by blast
  ultimately show ?thesis
    using n s(1) c w(1) by (simp add: mean_entry_def group_agg_def)
qed

lemma ranking_in_range:
  assumes "list_all impact_in_range xs" and "length xs < 2 ^ 32"
    and "e \<in> set (industryImpactData xs)"
  shows "\<exists>v. rank_score e = Fin v \<and> 0 \<le> v \<and> v \<le> 10 \<and> on_grid v"
  using assms by (auto simp add: set_ranking mean_entry_in_range)

lemma sorted_descending:
  assumes "\<And>x. x \<in> set ys \<Longrightarrow> \<exists>v. key x = Fin v"
    and "sorted (map (\<lambda>x. desc_key (key x)) ys)"
  shows "sorted_wrt (\<lambda>a b. js_ge (key a) (key b)) ys"
proof -
  from assms(2) have "sorted_wrt (\<lambda>a b. desc_key (key a) \<le> desc_key (key b)) ys"
    by (simp add: sorted_map)
  then show ?thesis
  proof (rule sorted_wrt_mono_rel [rotated])
    fix a b assume "a \<in> set ys" "b \<in> set ys" "desc_key (key a) \<le> desc_key (key b)"
    with assms(1) [of a] assms(1) [of b] show "js_ge (key a) (key b)"
      by (auto simp add: less_eq_prod_def)
  qed
qed

lemma ranking_sorted:
  assumes "list_all impact_in_range xs" and "length xs < 2 ^ 32"
  shows "sorted_wrt (\<lambda>a b. js_ge (rank_score a) (rank_score b)) (industryImpactData xs)"
proof -
  let ?pre = "map mean_entry (object_values (foldl aggregate [] xs))"
  have "set ?pre = set (industryImpactData xs)"
    by (simp add: industryImpactData_def set_js_sort)
  with ranking_in_range [OF assms]
  have fin: "\<And>e. e \<in> set ?pre \<Longrightarrow> \<exists>v. rank_score e = Fin v \<and> on_grid v"
    by blast
  then have ok: "\<And>e. e \<in> set ?pre \<Longrightarrow> ok_key (rank_score e)"
    by fastforce
  have eq: "industryImpactData xs = sort_key (\<lambda>e. desc_key (rank_score e)) ?pre"
    unfolding industryImpactData_def by (rule js_sort_descending) (rule ok)
  have "sorted (map (\<lambda>e. desc_key (rank_score e)) (sort_key (\<lambda>e. desc_key (rank_score e)) ?pre))"
    by (rule sorted_sort_key)
  moreover have "\<And>e. e \<in> set (sort_key (\<lambda>e. desc_key (rank_score e)) ?pre)
      \<Longrightarrow> \<exists>v. rank_score e = Fin v"
    using fin by (simp only: set_sort) blast
  ultimately show ?thesis
    unfolding eq by (intro sorted_descending) blast+
qed

text \<open>
  Two rankings on which the rounding of doubles shows: the quotient 169/20 is the double
  just below 8.45, so the score is 8.4; the sum of 0.1 and 1.2 halves to the double just
  above 0.65, so the score is 0.7.
\<close>

lemma ranking_rounds_doubles:
  "industryImpactData
     (replicate 9 (blank_item\<lparr>industry_tag := Some ''EV'', impact_score := Number 9\<rparr>)
      @ replicate 11 (blank_item\<lparr>industry_tag := Some ''EV'', impact_score := Number 8\<rparr>))
     = [\<lparr>rank_name = ''EV'', rank_score = fl (84 / 10)\<rparr>]"
  "industryImpactData
     [blank_item\<lparr>industry_tag := Some ''EV'', impact_score := Number (1 / 10)\<rparr>,
      blank_item\<lparr>industry_tag := Some ''EV'', impact_score := Number (12 / 10)\<rparr>]
     = [\<lparr>rank_name = ''EV'', rank_score = fl (7 / 10)\<rparr>]"
  by code_simp+

text \<open>
  Claim C9, as stated, fails: with impact scores 8 and missing on two records tagged
  \<open>"EV"\<close> (every score present is in range, and one is defined) the entry of \<open>EV\<close> has
  the mean \<open>NaN\<close>, which is not between 0 and 10.
\<close>

theorem ranking_nan_counterexample:
  "industryImpactData
     [blank_item\<lparr>industry_tag := Some ''EV'', impact_score := Number 8\<rparr>,
      blank_item\<lparr>industry_tag := Some ''EV''\<rparr>]
     = [\<lparr>rank_name = ''EV'', rank_score = NaN\<rparr>]
   \<and> \<not> mean_in_range \<lparr>rank_name = ''EV'', rank_score = NaN\<rparr>"
proof
  show "industryImpactData
     [blank_item\<lparr>industry_tag := Some ''EV'', impact_score := Number 8\<rparr>,
      blank_item\<lparr>industry_tag := Some ''EV''\<rparr>]
     = [\<lparr>rank_name = ''EV'', rank_score = NaN\<rparr>]"
    by code_simp
  show "\<not> mean_in_range \<lparr>rank_name = ''EV'', rank_score = NaN\<rparr>"
    by (simp add: mean_in_range_def)
qed

text \<open>
  Claim C9, amended. For every list of records (an array, so of fewer than \<open>2^32\<close>
  records) in which every record has a defined \<open>impact_score\<close> between 0 and 10, every
  IndustryRanking entry has a mean between 0 and 10 and the means are non-increasing
  along the ranking; two records tagged \<open>"EV"\<close> with impact scores 8 and 6 yield exactly
  the entry \<open>EV\<close> with mean 7.
\<close>

theorem ranking_bounded_sorted:
  "(list_all impact_in_range rawNews \<and> length rawNews < 2 ^ 32 \<longrightarrow>
      list_all mean_in_range (industryImpactData rawNews)
      \<and> sorted_wrt (\<lambda>a b. js_ge (rank_score a) (rank_score b)) (industryImpactData rawNews))
   \<and> industryImpactData
       [blank_item\<lparr>industry_tag := Some ''EV'', impact_score := Number 8\<rparr>,
        blank_item\<lparr>industry_tag := Some ''EV'', impact_score := Number 6\<rparr>]
       = [\<lparr>rank_name = ''EV'', rank_score = Fin 7\<rparr>]"
proof (intro conjI impI)
  show "industryImpactData
       [blank_item\<lparr>industry_tag := Some ''EV'', impact_score := Number 8\<rparr>,
        blank_item\<lparr>industry_tag := Some ''EV'', impact_score := Number 6\<rparr>]
       = [\<lparr>rank_name = ''EV'', rank_score = Fin 7\<rparr>]"
    by code_simp
next
  assume a: "list_all impact_in_range rawNews \<and> length rawNews < 2 ^ 32"
  have "mean_in_range e" if "e \<in> set (industryImpactData rawNews)" for e
    using ranking_in_range [of rawNews e] a that by (auto simp add: mean_in_range_def)
  then show "list_all mean_in_range (industryImpactData rawNews)"
    by (simp add: list_all_iff)
next
  assume "list_all impact_in_range rawNews \<and> length rawNews < 2 ^ 32"
  then show "sorted_wrt (\<lambda>a b. js_ge (rank_score a) (rank_score b)) (industryImpactData rawNews)"
    by (simp add: ranking_sorted)
qed

theorem ranking_bounded_sorted_witness:
  "list_all impact_in_range
      [blank_item\<lparr>industry_tag := Some ''EV'', impact_score := Number 8\<rparr>,
       blank_item\<lparr>industry_tag := Some ''Steel'', impact_score := Number 9\<rparr>,
       blank_item\<lparr>industry_tag := Some ''EV'', impact_score := Number 6\<rparr>]
   \<and> length
      [blank_item\<lparr>industry_tag := Some ''EV'', impact_score := Number 8\<rparr>,
       blank_item\<lparr>industry_tag := Some ''Steel'', impact_score := Number 9\<rparr>,
       blank_item\<lparr>industry_tag := Some ''EV'', impact_score := Number 6\<rparr>] < 2 ^ 32
   \<and> list_all mean_in_range (industryImpactData
      [blank_item\<lparr>industry_tag := Some ''EV'', impact_score := Number 8\<rparr>,
       blank_item\<lparr>industry_tag := Some ''Steel'', impact_score := Number 9\<rparr>,
       blank_item\<lparr>industry_tag := Some ''EV'', impact_score := Number 6\<rparr>])
   \<and> sorted_wrt (\<lambda>a b. js_ge (rank_score a) (rank_score b)) (industryImpactData
      [blank_item\<lparr>industry_tag := Some ''EV'', impact_score := Number 8\<rparr>,
       blank_item\<lparr>industry_tag := Some ''Steel'', impact_score := Number 9\<rparr>,
       blank_item\<lparr>industry_tag := Some ''EV'', impact_score := Number 6\<rparr>])
   \<and> industryImpactData
      [blank_item\<lparr>industry_tag := Some ''EV'', impact_score := Number 8\<rparr>,
       blank_item\<lparr>industry_tag := Some ''Steel'', impact_score := Number 9\<rparr>,
       blank_item\<lparr>industry_tag := Some ''EV'', impact_score := Number 6\<rparr>]
     = [\<lparr>rank_name = ''Steel'', rank_score = Fin 9\<rparr>, \<lparr>rank_name = ''EV'', rank_score = Fin 7\<rparr>]"
proof -
  have h: "list_all impact_in_range
      [blank_item\<lparr>industry_tag := Some ''EV'', impact_score := Number 8\<rparr>,
       blank_item\<lparr>industry_tag := Some ''Steel'', impact_score := Number 9\<rparr>,
       blank_item\<lparr>industry_tag := Some ''EV'', impact_score := Number 6\<rparr>]"
    by (simp add: impact_in_range_def blank_item_def)
  have l: "length
      [blank_item\<lparr>industry_tag := Some ''EV'', impact_score := Number 8\<rparr>,
       blank_item\<lparr>industry_tag := Some ''Steel'', impact_score := Number 9\<rparr>,
       blank_item\<lparr>industry_tag := Some ''EV'', impact_score := Number 6\<rparr>] < 2 ^ 32"
    by simp
  have v: "industryImpactData
      [blank_item\<lparr>industry_tag := Some ''EV'', impact_score := Number 8\<rparr>,
       blank_item\<lparr>industry_tag := Some ''Steel'', impact_score := Number 9\<rparr>,
       blank_item\<lparr>industry_tag := Some ''EV'', impact_score := Number 6\<rparr>]
     = [\<lparr>rank_name = ''Steel'', rank_score = Fin 9\<rparr>, \<lparr>rank_name = ''EV'', rank_score = Fin 7\<rparr>]"
    by code_simp
  from h l v ranking_bounded_sorted [of
      "[blank_item\<lparr>industry_tag := Some ''EV'', impact_score := Number 8\<rparr>,
       blank_item\<lparr>industry_tag := Some ''Steel'', impact_score := Number 9\<rparr>,
       blank_item\<lparr>industry_tag := Some ''EV'', impact_score := Number 6\<rparr>]"]
  show ?thesis by simp
qed

section \<open>ChronologicalGrouper\<close>

lemma js_sort_idem:
  assumes "\<And>x. x \<in> set xs \<Longrightarrow> ok_key (key x)"
  shows "js_sort (\<lambda>a b. js_sub (key b) (key a)) (js_sort (\<lambda>a b. js_sub (key b) (key a)) xs)
      = js_sort (\<lambda>a b. js_sub (key b) (key a)) xs"
proof -
  let ?k = "\<lambda>x. desc_key (key x)"
  have eq: "js_sort (\<lambda>a b. js_sub (key b) (key a)) xs = sort_key ?k xs"
    by (rule js_sort_descending) (rule assms)
  have "js_sort (\<lambda>a b. js_sub (key b) (key a)) (sort_key ?k xs) = sort_key ?k (sort_key ?k xs)"
    by (rule js_sort_descending) (simp add: assms)
  also have "\<dots> = sort_key ?k xs"
    by (rule sort_key_id_if_sorted) (rule sorted_sort_key)
  finally show ?thesis
    by (simp only: eq)
qed

lemma matches_created_at: "matches tz now fs x \<Longrightarrow> \<exists>t. parseISO (created_at x) = Some t"
  by (cases "parseISO (created_at x)") (simp_all add: matches_def isAfter_def)

lemma matches_time_ok: "matches tz now fs x \<Longrightarrow> ok_key (getTime (parseISO (created_at x)))"
  using matches_created_at [of tz now fs x] on_grid_int by auto

lemma matches_impact_ok: "matches tz now fs x \<Longrightarrow> ok_key (ToNumber (impact_score x))"
proof (rule ToNumber_ok)
  assume "matches tz now fs x"
  then have "js_ge (ToNumber (impact_score x)) (Fin (minScore fs))"
    by (simp add: matches_def)
  then show "ToNumber (impact_score x) \<noteq> NaN"
    by (cases "ToNumber (impact_score x)") simp_all
qed

lemma by_latest_key:
  "by_latest = (\<lambda>a b. js_sub (getTime (parseISO (created_at b))) (getTime (parseISO (created_at a))))"
  by (simp add: by_latest_def fun_eq_iff)

lemma by_impact_key:
  "by_impact = (\<lambda>a b. js_sub (ToNumber (impact_score b)) (ToNumber (impact_score a)))"
  by (simp add: by_impact_def fun_eq_iff)

lemma filter_js_sort_filter: "filter P (js_sort cmp (filter P ns)) = js_sort cmp (filter P ns)"
  by (simp add: filter_id_conv set_js_sort)

lemma resort_latest:
  "js_sort by_latest (js_sort by_latest (filter (matches tz now fs) ns))
     = js_sort by_latest (filter (matches tz now fs) ns)"
  unfolding by_latest_key by (rule js_sort_idem) (auto intro: matches_time_ok)

lemma resort_impact:
  "js_sort by_impact (js_sort by_impact (filter (matches tz now fs) ns))
     = js_sort by_impact (filter (matches tz now fs) ns)"
  unfolding by_impact_key by (rule js_sort_idem) (auto intro: matches_impact_ok)

lemma filteredAndSortedNews_idem:
  "filteredAndSortedNews tz now fs (Some (filteredAndSortedNews tz now fs news))
     = filteredAndSortedNews tz now fs news"
proof (cases news)
  case None
  then show ?thesis by (simp add: filteredAndSortedNews_def)
next
  case (Some ns)
  then show ?thesis
    by (simp add: filteredAndSortedNews_def Let_def filter_js_sort_filter resort_latest
        resort_impact)
qed

lemma set_filteredAndSortedNews:
  "x \<in> set (filteredAndSortedNews tz now fs news) \<Longrightarrow> matches tz now fs x"
  by (cases news) (auto simp add: filteredAndSortedNews_def Let_def set_js_sort split: if_splits)

lemma groupLabel_valid:
  "parseISO (created_at x) = Some t \<Longrightarrow> \<exists>l. groupLabel tz now x = Inr l"
  by (simp add: groupLabel_def Let_def format_MMMM_yyyy_def)

lemma firsts_Nil: "firsts [] = []"
  by (simp add: firsts_def)

lemma firsts_snoc: "firsts (xs @ [x]) = (if x \<in> set xs then firsts xs else firsts xs @ [x])"
  by (simp add: firsts_def)

lemma remdups_snoc: "remdups (ys @ [x]) = remdups (filter (\<lambda>y. y \<noteq> x) ys) @ [x]"
  by (induction ys) auto

lemma firsts_Cons: "firsts (x # xs) = x # firsts (filter (\<lambda>y. y \<noteq> x) xs)"
  by (simp add: firsts_def remdups_snoc rev_filter)

lemma set_firsts: "set (firsts xs) = set xs"
  by (simp add: firsts_def)

lemma distinct_firsts: "distinct (firsts xs)"
  by (simp add: firsts_def)

lemma concat_single:
  "distinct ls \<Longrightarrow> concat (map (\<lambda>m. if m = l then A else []) ls) = (if l \<in> set ls then A else [])"
  by (induction ls) auto

lemma filter_flat: "filter (\<lambda>x. lab x = l) (flat lab S) = filter (\<lambda>x. lab x = l) S"
proof -
  have "filter (\<lambda>x. lab x = l) (flat lab S)
      = concat (map (\<lambda>m. if m = l then filter (\<lambda>x. lab x = l) S else []) (firsts (map lab S)))"
    unfolding flat_def filter_concat map_map
    by (rule arg_cong [where f = concat], rule map_cong [OF refl]) (auto simp add: filter_empty_conv)
  also have "\<dots> = (if l \<in> set (firsts (map lab S)) then filter (\<lambda>x. lab x = l) S else [])"
    by (rule concat_single) (rule distinct_firsts)
  also have "\<dots> = filter (\<lambda>x. lab x = l) S"
  proof (cases "l \<in> lab ` set S")
    case True
    then show ?thesis by (simp add: set_firsts)
  next
    case False
    then have "filter (\<lambda>x. lab x = l) S = []"
      by (auto simp add: filter_empty_conv)
    then show ?thesis by simp
  qed
  finally show ?thesis .
qed

lemma set_flat: "set (flat lab S) = set S"
  by (auto simp add: flat_def set_firsts)

lemma flat_Cons:
  "flat lab (x # S) = x # filter (\<lambda>y. lab y = lab x) S @ flat lab (filter (\<lambda>y. lab y \<noteq> lab x) S)"
proof -
  let ?a = "lab x"
  let ?Sa = "filter (\<lambda>y. lab y \<noteq> ?a) S"
  have f: "firsts (map lab (x # S)) = ?a # firsts (map lab ?Sa)"
    by (simp add: firsts_Cons filter_map comp_def)
  have m: "map (\<lambda>l. filter (\<lambda>y. lab y = l) (x # S)) (firsts (map lab ?Sa))
      = map (\<lambda>l. filter (\<lambda>y. lab y = l) ?Sa) (firsts (map lab ?Sa))"
  proof (rule map_cong [OF refl])
    fix l assume "l \<in> set (firsts (map lab ?Sa))"
    then have "l \<noteq> ?a" by (auto simp add: set_firsts)
    then show "filter (\<lambda>y. lab y = l) (x # S) = filter (\<lambda>y. lab y = l) ?Sa"
      by (auto intro: filter_cong)
  qed
  have "flat lab (x # S)
      = concat (map (\<lambda>l. filter (\<lambda>y. lab y = l) (x # S)) (?a # firsts (map lab ?Sa)))"
    unfolding flat_def f ..
  also have "\<dots> = filter (\<lambda>y. lab y = ?a) (x # S)
      @ concat (map (\<lambda>l. filter (\<lambda>y. lab y = l) (x # S)) (firsts (map lab ?Sa)))"
    by (simp only: list.map concat.simps)
  also have "\<dots> = filter (\<lambda>y. lab y = ?a) (x # S) @ flat lab ?Sa"
    by (simp only: m flat_def)
  finally show ?thesis by simp
qed

lemma sort_key_min_Cons:
  "(\<And>y. y \<in> set xs \<Longrightarrow> k x \<le> k y) \<Longrightarrow> sort_key k (x # xs) = x # sort_key k xs"
  for k :: "'a \<Rightarrow> 'b::linorder"
proof -
  assume le: "\<And>y. y \<in> set xs \<Longrightarrow> k x \<le> k y"
  show ?thesis
  proof (cases "sort_key k xs")
    case Nil
    then show ?thesis by simp
  next
    case (Cons y ys)
    then have "y \<in> set xs"
      by (metis list.set_intros(1) set_sort)
    with le Cons show ?thesis by simp
  qed
qed

lemma firsts_resort:
  "sorted (map k S) \<Longrightarrow> firsts (map lab (sort_key k (flat lab S))) = firsts (map lab S)"
  for k :: "'a \<Rightarrow> 'b::linorder"
proof (induction S rule: length_induct)
  case (1 S)
  show ?case
  proof (cases S)
    case Nil
    then show ?thesis by (simp add: flat_def firsts_Nil)
  next
    case (Cons x S0)
    let ?a = "lab x"
    let ?Sa = "filter (\<lambda>y. lab y \<noteq> ?a) S0"
    let ?rest = "filter (\<lambda>y. lab y = ?a) S0 @ flat lab ?Sa"
    from 1(2) Cons have sorted: "sorted (map k S0)" and le: "\<And>y. y \<in> set S0 \<Longrightarrow> k x \<le> k y"
      by auto
    have flat: "flat lab S = x # ?rest"
      by (simp add: Cons flat_Cons)
    have "set ?rest \<subseteq> set S0"
      by (auto simp add: set_flat)
    with le have "sort_key k (x # ?rest) = x # sort_key k ?rest"
      by (intro sort_key_min_Cons) auto
    then have "firsts (map lab (sort_key k (flat lab S)))
        = ?a # firsts (map lab (filter (\<lambda>y. lab y \<noteq> ?a) (sort_key k ?rest)))"
      by (simp add: flat firsts_Cons filter_map comp_def)
    also have "filter (\<lambda>y. lab y \<noteq> ?a) (sort_key k ?rest)
        = sort_key k (filter (\<lambda>y. lab y \<noteq> ?a) ?rest)"
      by (rule filter_sort)
    also have "filter (\<lambda>y. lab y \<noteq> ?a) ?rest = flat lab ?Sa"
      by (auto simp add: filter_id_conv set_flat filter_empty_conv)
    also have "firsts (map lab (sort_key k (flat lab ?Sa))) = firsts (map lab ?Sa)"
    proof -
      have "length ?Sa < length S"
        by (simp add: Cons le_imp_less_Suc)
      moreover have "sorted (map k ?Sa)"
        using sorted by (rule sorted_filter)
      ultimately show ?thesis
        using 1(1) by blast
    qed
    also have "?a # firsts (map lab ?Sa) = firsts (map lab S)"
      by (simp add: Cons firsts_Cons filter_map comp_def)
    finally show ?thesis .
  qed
qed

lemma filter_resort:
  "sorted (map k S) \<Longrightarrow>
     filter (\<lambda>x. lab x = l) (sort_key k (flat lab S)) = filter (\<lambda>x. lab x = l) S"
  for k :: "'a \<Rightarrow> 'b::linorder"
proof -
  assume s: "sorted (map k S)"
  have "filter (\<lambda>x. lab x = l) (sort_key k (flat lab S))
      = sort_key k (filter (\<lambda>x. lab x = l) (flat lab S))"
    by (rule filter_sort)
  also have "\<dots> = sort_key k (filter (\<lambda>x. lab x = l) S)"
    by (simp only: filter_flat)
  also have "\<dots> = filter (\<lambda>x. lab x = l) S"
    by (rule sort_key_id_if_sorted) (rule sorted_filter [OF s])
  finally show ?thesis .
qed

lemma group_from_foldl:
  "(\<And>x. x \<in> set xs \<Longrightarrow> \<exists>l. groupLabel tz now x = Inr l) \<Longrightarrow>
     group_from tz now g xs = Inr (foldl (\<lambda>g x. push_group (label_of tz now x) x g) g xs)"
proof (induction xs arbitrary: g)
  case Nil
  show ?case by simp
next
  case (Cons x xs)
  from Cons.prems obtain l where l: "groupLabel tz now x = Inr l" by auto
  have "group_from tz now (push_group l x g) xs
      = Inr (foldl (\<lambda>g x. push_group (label_of tz now x) x g) (push_group l x g) xs)"
    by (rule Cons.IH) (simp add: Cons.prems)
  with l show ?case by (simp add: label_of_def)
qed

lemma map_of_tabulate:
  "map_of (map (\<lambda>m. (m, f m)) ls) l = (if l \<in> set ls then Some (f l) else None)"
  by (induction ls) auto

lemma set_prop_tabulate:
  "distinct ls \<Longrightarrow>
     set_prop l v (map (\<lambda>m. (m, f m)) ls)
       = (if l \<in> set ls then map (\<lambda>m. (m, if m = l then v else f m)) ls
          else map (\<lambda>m. (m, f m)) ls @ [(l, v)])"
  by (induction ls) auto

lemma Nil_eq_filter_label: "l \<notin> lab ` set xs \<Longrightarrow> [] = filter (\<lambda>x. lab x = l) xs"
  by (induction xs) auto

lemma grouping_tabulated:
  "foldl (\<lambda>g x. push_group (lab x) x g) [] xs
     = map (\<lambda>l. (l, filter (\<lambda>x. lab x = l) xs)) (firsts (map lab xs))"
proof (induction xs rule: rev_induct)
  case Nil
  show ?case by (simp add: firsts_Nil)
next
  case (snoc x xs)
  let ?ls = "firsts (map lab xs)"
  let ?F = "\<lambda>l. filter (\<lambda>x. lab x = l) xs"
  have cur: "(case map_of (map (\<lambda>l. (l, ?F l)) ?ls) (lab x) of None \<Rightarrow> [] | Some ys \<Rightarrow> ys)
      = ?F (lab x)"
    by (auto simp add: map_of_tabulate set_firsts Nil_eq_filter_label)
  have "push_group (lab x) x (map (\<lambda>l. (l, ?F l)) ?ls)
      = map (\<lambda>l. (l, filter (\<lambda>x. lab x = l) (xs @ [x]))) (firsts (map lab (xs @ [x])))"
    unfolding push_group_def cur
    by (auto simp add: set_prop_tabulate distinct_firsts set_firsts firsts_snoc)
  with snoc show ?case by simp
qed

lemma items_of_tabulated:
  "items_of (map (\<lambda>l. (l, filter (\<lambda>x. lab x = l) S)) (firsts (map lab S))) = flat lab S"
  by (simp add: items_of_def flat_def comp_def)

lemma regroup_resorted:
  fixes k :: "news_item \<Rightarrow> int \<times> rat"
  assumes "sorted (map k S)"
  shows "foldl (\<lambda>g x. push_group (lab x) x g) [] (sort_key k (flat lab S))
      = foldl (\<lambda>g x. push_group (lab x) x g) [] S"
  by (simp only: grouping_tabulated firsts_resort [OF assms] filter_resort [OF assms])

lemma feed_sort_key:
  "\<exists>k :: news_item \<Rightarrow> int \<times> rat.
     (\<forall>L. (\<forall>x \<in> set L. matches tz now fs x) \<longrightarrow>
        filteredAndSortedNews tz now fs (Some L) = sort_key k L)"
proof (cases "sortBy fs = Latest")
  case True
  let ?k = "\<lambda>x. desc_key (getTime (parseISO (created_at x)))"
  have "filteredAndSortedNews tz now fs (Some L) = sort_key ?k L"
    if "\<forall>x \<in> set L. matches tz now fs x" for L
  proof -
    from that have "filter (matches tz now fs) L = L"
      by (simp add: filter_id_conv)
    moreover have "js_sort by_latest L = sort_key ?k L"
      unfolding by_latest_key
      by (rule js_sort_descending) (use that in \<open>auto intro: matches_time_ok\<close>)
    ultimately show ?thesis
      using True by (simp add: filteredAndSortedNews_def)
  qed
  then show ?thesis by blast
next
  case False
  let ?k = "\<lambda>x. desc_key (ToNumber (impact_score x))"
  have "filteredAndSortedNews tz now fs (Some L) = sort_key ?k L"
    if "\<forall>x \<in> set L. matches tz now fs x" for L
  proof -
    from that have "filter (matches tz now fs) L = L"
      by (simp add: filter_id_conv)
    moreover have "js_sort by_impact L = sort_key ?k L"
      unfolding by_impact_key
      by (rule js_sort_descending) (use that in \<open>auto intro: matches_impact_ok\<close>)
    ultimately show ?thesis
      using False by (simp add: filteredAndSortedNews_def)
  qed
  then show ?thesis by blast
qed

lemma matches_has_label: "matches tz now fs x \<Longrightarrow> \<exists>l. groupLabel tz now x = Inr l"
  using matches_created_at groupLabel_valid by blast

text \<open>
  Claim C8. For every list of records, either sort mode and a fixed reference instant,
  the grouper does not fail, and running it again with the same state on its own output
  gives the same groups in the same order with the same records in the same order in
  each group. This holds for the sorted sequence it grouped, and also for the records of
  its groups read group after group.
\<close>

theorem grouper_idempotent:
  "\<exists>groups. ChronologicalGrouper tz now fs news = Inr groups
     \<and> ChronologicalGrouper tz now fs (Some (filteredAndSortedNews tz now fs news)) = Inr groups
     \<and> ChronologicalGrouper tz now fs (Some (items_of groups)) = Inr groups"
proof -
  let ?S = "filteredAndSortedNews tz now fs news"
  let ?lab = "label_of tz now"
  let ?G = "\<lambda>xs. foldl (\<lambda>g x. push_group (?lab x) x g) [] xs"
  obtain k :: "news_item \<Rightarrow> int \<times> rat" where k: "\<And>L. (\<forall>x \<in> set L. matches tz now fs x) \<Longrightarrow>
      filteredAndSortedNews tz now fs (Some L) = sort_key k L"
    using feed_sort_key [of tz now fs] by blast
  have all: "\<forall>x \<in> set ?S. matches tz now fs x"
    by (auto dest: set_filteredAndSortedNews)
  have "?S = sort_key k ?S"
    using k [OF all] by (simp only: filteredAndSortedNews_idem)
  then have sorted: "sorted (map k ?S)"
    by (metis sorted_sort_key)
  have g1: "ChronologicalGrouper tz now fs news = Inr (?G ?S)"
    unfolding ChronologicalGrouper_def groupedNews_def
    by (rule group_from_foldl) (use all in \<open>auto intro: matches_has_label\<close>)
  have g2: "ChronologicalGrouper tz now fs (Some ?S) = Inr (?G ?S)"
    using g1 by (simp add: ChronologicalGrouper_def filteredAndSortedNews_idem)
  have items: "items_of (?G ?S) = flat ?lab ?S"
    by (simp only: grouping_tabulated items_of_tabulated)
  have all': "\<forall>x \<in> set (flat ?lab ?S). matches tz now fs x"
    using all by (simp add: set_flat)
  then have re: "filteredAndSortedNews tz now fs (Some (flat ?lab ?S)) = sort_key k (flat ?lab ?S)"
    by (rule k)
  have "ChronologicalGrouper tz now fs (Some (flat ?lab ?S)) = Inr (?G (sort_key k (flat ?lab ?S)))"
    unfolding ChronologicalGrouper_def groupedNews_def re
    by (rule group_from_foldl) (use all' in \<open>auto intro: matches_has_label\<close>)
  then have g3: "ChronologicalGrouper tz now fs (Some (items_of (?G ?S))) = Inr (?G ?S)"
    by (simp only: items regroup_resorted [OF sorted])
  from g1 g2 g3 show ?thesis by blast
qed

theorem grouper_idempotent_witness:
  "ChronologicalGrouper 0 1700000000000
      \<lparr>industryFilter = ''All'', minScore = 0, timeRange = Weekly, sortBy = HighestImpact\<rparr>
      (Some [blank_item\<lparr>nid := 4, created_at := Iso 1699990000000\<rparr>,
            blank_item\<lparr>nid := 1, impact_score := Number 9, created_at := Iso 1699999000000\<rparr>,
            blank_item\<lparr>nid := 2, impact_score := Number 8, created_at := Iso 1699740800000\<rparr>,
            blank_item\<lparr>nid := 3, impact_score := Number 8, created_at := Iso 1699990000000\<rparr>])
     = Inr
        [(''Today'',
          [blank_item\<lparr>nid := 1, impact_score := Number 9, created_at := Iso 1699999000000\<rparr>,
           blank_item\<lparr>nid := 3, impact_score := Number 8, created_at := Iso 1699990000000\<rparr>]),
         (''This Week'',
          [blank_item\<lparr>nid := 2, impact_score := Number 8, created_at := Iso 1699740800000\<rparr>])]
   \<and> ChronologicalGrouper 0 1700000000000
      \<lparr>industryFilter = ''All'', minScore = 0, timeRange = Weekly, sortBy = HighestImpact\<rparr>
      (Some (items_of
        [(''Today'',
          [blank_item\<lparr>nid := 1, impact_score := Number 9, created_at := Iso 1699999000000\<rparr>,
           blank_item\<lparr>nid := 3, impact_score := Number 8, created_at := Iso 1699990000000\<rparr>]),
         (''This Week'',
          [blank_item\<lparr>nid := 2, impact_score := Number 8, created_at := Iso 1699740800000\<rparr>])]))
     = Inr
        [(''Today'',
          [blank_item\<lparr>nid := 1, impact_score := Number 9, created_at := Iso 1699999000000\<rparr>,
           blank_item\<lparr>nid := 3, impact_score := Number 8, created_at := Iso 1699990000000\<rparr>]),
         (''This Week'',
          [blank_item\<lparr>nid := 2, impact_score := Number 8, created_at := Iso 1699740800000\<rparr>])]"
proof -
  have g: "ChronologicalGrouper 0 1700000000000
      \<lparr>industryFilter = ''All'', minScore = 0, timeRange = Weekly, sortBy = HighestImpact\<rparr>
      (Some [blank_item\<lparr>nid := 4, created_at := Iso 1699990000000\<rparr>,
            blank_item\<lparr>nid := 1, impact_score := Number 9, created_at := Iso 1699999000000\<rparr>,
            blank_item\<lparr>nid := 2, impact_score := Number 8, created_at := Iso 1699740800000\<rparr>,
            blank_item\<lparr>nid := 3, impact_score := Number 8, created_at := Iso 1699990000000\<rparr>])
     = Inr
        [(''Today'',
          [blank_item\<lparr>nid := 1, impact_score := Number 9, created_at := Iso 1699999000000\<rparr>,
           blank_item\<lparr>nid := 3, impact_score := Number 8, created_at := Iso 1699990000000\<rparr>]),
         (''This Week'',
          [blank_item\<lparr>nid := 2, impact_score := Number 8, created_at := Iso 1699740800000\<rparr>])]"
    by code_simp
  from grouper_idempotent [of 0 1700000000000
      "\<lparr>industryFilter = ''All'', minScore = 0, timeRange = Weekly, sortBy = HighestImpact\<rparr>"
      "(Some [blank_item\<lparr>nid := 4, created_at := Iso 1699990000000\<rparr>,
            blank_item\<lparr>nid := 1, impact_score := Number 9, created_at := Iso 1699999000000\<rparr>,
            blank_item\<lparr>nid := 2, impact_score := Number 8, created_at := Iso 1699740800000\<rparr>,
            blank_item\<lparr>nid := 3, impact_score := Number 8, created_at := Iso 1699990000000\<rparr>])"]
  obtain groups where "ChronologicalGrouper 0 1700000000000
      \<lparr>industryFilter = ''All'', minScore = 0, timeRange = Weekly, sortBy = HighestImpact\<rparr>
      (Some [blank_item\<lparr>nid := 4, created_at := Iso 1699990000000\<rparr>,
            blank_item\<lparr>nid := 1, impact_score := Number 9, created_at := Iso 1699999000000\<rparr>,
            blank_item\<lparr>nid := 2, impact_score := Number 8, created_at := Iso 1699740800000\<rparr>,
            blank_item\<lparr>nid := 3, impact_score := Number 8, created_at := Iso 1699990000000\<rparr>]) = Inr groups"
    and "ChronologicalGrouper 0 1700000000000
      \<lparr>industryFilter = ''All'', minScore = 0, timeRange = Weekly, sortBy = HighestImpact\<rparr>
      (Some (items_of groups)) = Inr groups"
    by blast
  with g show ?thesis by simp
qed

section \<open>SentimentClassifier\<close>

lemma classify_total:
  "bucket_value (Positive (classify c item)) + bucket_value (Neutral (classify c item))
     + bucket_value (Risk (classify c item))
   = bucket_value (Positive c) + bucket_value (Neutral c) + bucket_value (Risk c) + 1"
  by (simp add: classify_def incr_def)

lemma foldl_classify_total:
  "bucket_value (Positive (foldl classify c items)) + bucket_value (Neutral (foldl classify c items))
     + bucket_value (Risk (foldl classify c items))
   = bucket_value (Positive c) + bucket_value (Neutral c) + bucket_value (Risk c) + length items"
proof (induction items arbitrary: c)
  case Nil
  show ?case by simp
next
  case (Cons item items)
  show ?case
    using Cons.IH [of "classify c item"] classify_total [of c item] by simp
qed

lemma sum_positive_buckets:
  "sum_list (map bucket_value (filter (\<lambda>c. bucket_value c > 0) cs)) = sum_list (map bucket_value cs)"
  by (induction cs) auto

text \<open>Where a record without a score lands: \<open>undefined\<close> in Neutral, \<open>null\<close> in Risk.\<close>

lemma classify_undefined:
  "sentiment_score item = Undefined \<Longrightarrow> classify c item = c\<lparr>Neutral := incr (Neutral c)\<rparr>"
  by (simp add: classify_def)

lemma classify_null:
  "sentiment_score item = Null \<Longrightarrow> classify c item = c\<lparr>Risk := incr (Risk c)\<rparr>"
  by (simp add: classify_def)

text \<open>
  Claim C1, as stated, fails: a record inside the window whose \<open>sentiment_score\<close> is
  missing is counted in the Neutral bucket, so the bucket counts sum to 1 while no
  time-filtered record has a defined score.
\<close>

theorem sentiment_undefined_counterexample:
  "filteredSentimentData 0 1700000000000 Weekly [blank_item\<lparr>published_at := Iso 1699999999000\<rparr>]
     = [\<lparr>bucket_name = ''Neutral'', bucket_value = 1, bucket_color = ''#f59e0b''\<rparr>]
   \<and> length (filter has_sentiment (time_filtered 0 1700000000000 Weekly
      [blank_item\<lparr>published_at := Iso 1699999999000\<rparr>])) = 0"
  by (simp add: filteredSentimentData_def time_filtered_def blank_item_def has_sentiment_def
      isAfter_def subDays_def ms_per_day_def classify_def counts0_def incr_def)

lemma sentiment_sum:
  "sum_list (map bucket_value (filteredSentimentData tz now tr rawNews))
     = length (time_filtered tz now tr rawNews)"
proof -
  have "bucket_value (Positive counts0) + bucket_value (Neutral counts0)
      + bucket_value (Risk counts0) = 0"
    by (simp add: counts0_def)
  with foldl_classify_total [of counts0 "time_filtered tz now tr rawNews"]
  have "sum_list (map bucket_value
      [Positive (foldl classify counts0 (time_filtered tz now tr rawNews)),
       Neutral (foldl classify counts0 (time_filtered tz now tr rawNews)),
       Risk (foldl classify counts0 (time_filtered tz now tr rawNews))])
      = length (time_filtered tz now tr rawNews)"
    by simp
  then show ?thesis
    unfolding filteredSentimentData_def Let_def sum_positive_buckets .
qed

lemma foldl_classify_buckets:
  "foldl classify c items =
     \<lparr>Positive = (Positive c)\<lparr>bucket_value := bucket_value (Positive c) + bucket_size items ''Positive''\<rparr>,
      Neutral = (Neutral c)\<lparr>bucket_value := bucket_value (Neutral c) + bucket_size items ''Neutral''\<rparr>,
      Risk = (Risk c)\<lparr>bucket_value := bucket_value (Risk c) + bucket_size items ''Risk''\<rparr>\<rparr>"
proof (induction items arbitrary: c)
  case Nil
  show ?case by (simp add: bucket_size_def)
next
  case (Cons item items)
  show ?case
    unfolding foldl_Cons Cons.IH
    by (simp add: classify_def incr_def bucket_size_def sentiment_bucket_def)
qed

lemma sentiment_view:
  "map (\<lambda>c. (bucket_name c, bucket_value c)) (filteredSentimentData tz now tr rawNews)
     = filter (\<lambda>p. snd p > 0)
         (map (\<lambda>b. (b, bucket_size (time_filtered tz now tr rawNews) b))
            [''Positive'', ''Neutral'', ''Risk''])"
  by (simp add: filteredSentimentData_def Let_def foldl_classify_buckets counts0_def)

text \<open>
  Claim C1, amended. For every list of records the SentimentMix view counts every
  time-filtered record in exactly one bucket (Positive: score above 7, Risk: score below
  4, Neutral: otherwise), with the empty buckets dropped; a record without a defined
  \<open>sentiment_score\<close> is counted too: in Neutral when the field is missing, in Risk when
  it is \<open>null\<close>. The bucket counts therefore sum to the number of time-filtered records.
\<close>

theorem sentiment_mix_counts_every_item:
  "sum_list (map bucket_value (filteredSentimentData tz now tr rawNews))
     = length (time_filtered tz now tr rawNews)
   \<and> map (\<lambda>c. (bucket_name c, bucket_value c)) (filteredSentimentData tz now tr rawNews)
       = filter (\<lambda>p. snd p > 0)
           (map (\<lambda>b. (b, bucket_size (time_filtered tz now tr rawNews) b))
              [''Positive'', ''Neutral'', ''Risk''])
   \<and> sentiment_bucket (item\<lparr>sentiment_score := Undefined\<rparr>) = ''Neutral''
   \<and> sentiment_bucket (item\<lparr>sentiment_score := Null\<rparr>) = ''Risk''"
  by (simp only: sentiment_sum sentiment_view) (simp add: sentiment_bucket_def)

theorem sentiment_mix_witness:
  "filteredSentimentData 0 1700000000000 Weekly
      [blank_item\<lparr>published_at := Iso 1699999999000, sentiment_score := Number 8\<rparr>,
       blank_item\<lparr>created_at := Iso 1699999999000, sentiment_score := Number 3\<rparr>,
       blank_item\<lparr>published_at := Iso 1699999999000, sentiment_score := Number 5\<rparr>,
       blank_item\<lparr>published_at := Iso 1699999999000\<rparr>,
       blank_item\<lparr>published_at := Iso 1699999999000, sentiment_score := Null\<rparr>,
       blank_item\<lparr>published_at := Iso 1600000000000, sentiment_score := Number 9\<rparr>]
     = [\<lparr>bucket_name = ''Positive'', bucket_value = 1, bucket_color = ''#10b981''\<rparr>,
        \<lparr>bucket_name = ''Neutral'', bucket_value = 2, bucket_color = ''#f59e0b''\<rparr>,
        \<lparr>bucket_name = ''Risk'', bucket_value = 2, bucket_color = ''#ef4444''\<rparr>]
   \<and> length (time_filtered 0 1700000000000 Weekly
      [blank_item\<lparr>published_at := Iso 1699999999000, sentiment_score := Number 8\<rparr>,
       blank_item\<lparr>created_at := Iso 1699999999000, sentiment_score := Number 3\<rparr>,
       blank_item\<lparr>published_at := Iso 1699999999000, sentiment_score := Number 5\<rparr>,
       blank_item\<lparr>published_at := Iso 1699999999000\<rparr>,
       blank_item\<lparr>published_at := Iso 1699999999000, sentiment_score := Null\<rparr>,
       blank_item\<lparr>published_at := Iso 1600000000000, sentiment_score := Number 9\<rparr>]) = 5"
  using sentiment_mix_counts_every_item [of 0 1700000000000 Weekly
      "[blank_item\<lparr>published_at := Iso 1699999999000, sentiment_score := Number 8\<rparr>,
       blank_item\<lparr>created_at := Iso 1699999999000, sentiment_score := Number 3\<rparr>,
       blank_item\<lparr>published_at := Iso 1699999999000, sentiment_score := Number 5\<rparr>,
       blank_item\<lparr>published_at := Iso 1699999999000\<rparr>,
       blank_item\<lparr>published_at := Iso 1699999999000, sentiment_score := Null\<rparr>,
       blank_item\<lparr>published_at := Iso 1600000000000, sentiment_score := Number 9\<rparr>]"
      blank_item]
  by (simp add: filteredSentimentData_def time_filtered_def blank_item_def
      isAfter_def subDays_def ms_per_day_def classify_def counts0_def incr_def fl_numeral)

section \<open>RiskDistributionCounter\<close>

lemma incr_first_map:
  "distinct ns \<Longrightarrow>
     incr_first r (map (\<lambda>n. \<lparr>risk_name = n, risk_count = f n\<rparr>) ns)
       = map (\<lambda>n. \<lparr>risk_name = n, risk_count = (if n = r then f n + 1 else f n)\<rparr>) ns"
  by (induction ns) auto

lemma find_risk_map:
  "find (\<lambda>c. risk_name c = r) (map (\<lambda>n. \<lparr>risk_name = n, risk_count = f n\<rparr>) ns) = None
     \<longleftrightarrow> r \<notin> set ns"
  by (induction ns) auto

lemma distinct_risks: "distinct risks"
  by (simp add: risks_def)

lemma risk_category_spec_eq:
  "risk_category_spec item =
     (if or_default (risk_type item) ''None'' \<in> set risks
      then or_default (risk_type item) ''None'' else ''Other'')"
  by (cases "risk_type item") (simp_all add: risk_category_spec_def risks_def)

lemma risk_category_in_risks: "risk_category_spec item \<in> set risks"
  by (simp add: risk_category_spec_eq) (simp add: risks_def)

lemma count_risk_map:
  "count_risk (map (\<lambda>n. \<lparr>risk_name = n, risk_count = f n\<rparr>) risks) item
     = map (\<lambda>n. \<lparr>risk_name = n,
                  risk_count = (if n = risk_category_spec item then f n + 1 else f n)\<rparr>) risks"
proof (cases "or_default (risk_type item) ''None'' \<in> set risks")
  case True
  then have "find (\<lambda>c. risk_name c = or_default (risk_type item) ''None'')
      (map (\<lambda>n. \<lparr>risk_name = n, risk_count = f n\<rparr>) risks) \<noteq> None"
    by (simp add: find_risk_map)
  with True show ?thesis
    by (auto simp add: count_risk_def Let_def risk_category_spec_eq
        incr_first_map [OF distinct_risks] split: option.splits)
next
  case False
  then have "find (\<lambda>c. risk_name c = or_default (risk_type item) ''None'')
      (map (\<lambda>n. \<lparr>risk_name = n, risk_count = f n\<rparr>) risks) = None"
    by (simp add: find_risk_map)
  with False show ?thesis
    by (simp add: count_risk_def Let_def risk_category_spec_eq
        incr_first_map [OF distinct_risks])
qed

lemma foldl_count_risk:
  "foldl count_risk (map (\<lambda>n. \<lparr>risk_name = n, risk_count = f n\<rparr>) risks) items
     = map (\<lambda>n. \<lparr>risk_name = n,
            risk_count = f n + length (filter (\<lambda>item. risk_category_spec item = n) items)\<rparr>) risks"
proof (induction items arbitrary: f)
  case Nil
  show ?case by simp
next
  case (Cons item items)
  show ?case
    by (simp add: count_risk_map Cons.IH)
qed

lemma sum_indicator:
  "distinct ns \<Longrightarrow> (\<Sum>n\<leftarrow>ns. if c = n then 1 else 0) = (if c \<in> set ns then 1 else (0::nat))"
  by (induction ns) auto

lemma sum_category_counts:
  "distinct ns \<Longrightarrow> (\<And>x. x \<in> set items \<Longrightarrow> cat x \<in> set ns) \<Longrightarrow>
     (\<Sum>n\<leftarrow>ns. length (filter (\<lambda>x. cat x = n) items)) = length items"
proof (induction items)
  case Nil
  show ?case by simp
next
  case (Cons x items)
  have "(\<Sum>n\<leftarrow>ns. length (filter (\<lambda>x. cat x = n) (x # items)))
      = (\<Sum>n\<leftarrow>ns. (if cat x = n then 1 else 0) + length (filter (\<lambda>x. cat x = n) items))"
    by (rule arg_cong [where f = sum_list]) simp
  also have "\<dots> = (\<Sum>n\<leftarrow>ns. if cat x = n then 1 else 0)
      + (\<Sum>n\<leftarrow>ns. length (filter (\<lambda>x. cat x = n) items))"
    by (simp add: sum_list_addf)
  also have "\<dots> = 1 + length items"
    using Cons by (simp add: sum_indicator)
  finally show ?case by simp
qed

lemma sum_positive_entries:
  "sum_list (map risk_count (filter (\<lambda>c. risk_count c > 0) cs)) = sum_list (map risk_count cs)"
  by (induction cs) auto

text \<open>
  Claim C4. The RiskDistribution counts sum to the number of records. The view is the
  ordered list of the six categories, each with the number of records of that category
  (an absent \<open>risk_type\<close> is \<open>None\<close>, a value that is none of the six names is \<open>Other\<close>),
  with the zero counts dropped and the order of the rest kept.
\<close>

theorem risk_distribution_counts_all:
  "sum_list (map risk_count (riskDistributionData rawNews)) = length rawNews
   \<and> riskDistributionData rawNews
       = filter (\<lambda>c. risk_count c > 0) (map (risk_entry_spec rawNews) risks)"
proof -
  have eq: "riskDistributionData rawNews
      = filter (\<lambda>c. risk_count c > 0) (map (risk_entry_spec rawNews) risks)"
    using foldl_count_risk [of "\<lambda>n. 0" rawNews]
    by (simp add: riskDistributionData_def risk_entry_spec_def [abs_def])
  have "sum_list (map risk_count (map (risk_entry_spec rawNews) risks)) = length rawNews"
    using sum_category_counts [of risks rawNews risk_category_spec]
    by (simp add: distinct_risks risk_category_in_risks risk_entry_spec_def comp_def)
  with eq show ?thesis
    by (simp add: sum_positive_entries)
qed

theorem risk_distribution_witness:
  "riskDistributionData
      [blank_item\<lparr>risk_type := Some ''Cyber''\<rparr>, blank_item\<lparr>risk_type := Some ''Policy''\<rparr>,
       blank_item]
     = [\<lparr>risk_name = ''Policy'', risk_count = 1\<rparr>, \<lparr>risk_name = ''Other'', risk_count = 1\<rparr>,
        \<lparr>risk_name = ''None'', risk_count = 1\<rparr>]"
  using risk_distribution_counts_all [of
      "[blank_item\<lparr>risk_type := Some ''Cyber''\<rparr>, blank_item\<lparr>risk_type := Some ''Policy''\<rparr>,
       blank_item]"]
  by (simp add: risk_entry_spec_def risk_category_spec_def risks_def blank_item_def)

section \<open>UrgencyImpactCorrelator\<close>

text \<open>
  Claim C3, as stated, fails: a record whose urgency is \<open>"Critical"\<close> and a record
  without urgency are both kept in the view, with weight 1.
\<close>

theorem scatter_coerces_counterexample:
  "scatterData [blank_item\<lparr>nid := 1, urgency := Some ''Critical''\<rparr>, blank_item\<lparr>nid := 2\<rparr>]
     = [\<lparr>pt_impact = Undefined, pt_urgency = 1, pt_title = [], pt_id = 1\<rparr>,
        \<lparr>pt_impact = Undefined, pt_urgency = 1, pt_title = [], pt_id = 2\<rparr>]"
  by (simp add: scatterData_def blank_item_def urgency_weight_def)

text \<open>
  Claim C3, amended. For every list of records the view has one point per record, in
  order; urgency High has weight 3, Medium 2, Low 1, and every other or absent urgency
  has weight 1 as well: no record is rejected.
\<close>

theorem scatter_one_point_per_record:
  "map pt_id (scatterData rawNews) = map nid rawNews
   \<and> map pt_urgency (scatterData rawNews)
       = map (\<lambda>item. if urgency item = Some ''High'' then 3
                       else if urgency item = Some ''Medium'' then 2 else 1) rawNews
   \<and> urgency_weight (Some ''High'') = 3 \<and> urgency_weight (Some ''Medium'') = 2
   \<and> urgency_weight (Some ''Low'') = 1"
  by (simp add: scatterData_def urgency_weight_def comp_def)

theorem scatter_witness:
  "map pt_urgency (scatterData
      [blank_item\<lparr>urgency := Some ''High''\<rparr>, blank_item\<lparr>urgency := Some ''Medium''\<rparr>,
       blank_item\<lparr>urgency := Some ''Low''\<rparr>, blank_item\<lparr>urgency := Some ''high''\<rparr>,
       blank_item]) = [3, 2, 1, 1, 1]"
  using scatter_one_point_per_record [of
      "[blank_item\<lparr>urgency := Some ''High''\<rparr>, blank_item\<lparr>urgency := Some ''Medium''\<rparr>,
       blank_item\<lparr>urgency := Some ''Low''\<rparr>, blank_item\<lparr>urgency := Some ''high''\<rparr>,
       blank_item]"]
  by (simp add: blank_item_def)

section \<open>ConfigReconciler\<close>

lemma sync_config_nonempty: "local_keywords st \<noteq> [] \<Longrightarrow> sync_config config st = st"
  by (simp add: sync_config_def split: option.splits)

lemma sync_all_nonempty:
  "local_keywords st \<noteq> [] \<Longrightarrow> foldl (\<lambda>s c. sync_config c s) st fetches = st"
  by (induction fetches) (simp_all add: sync_config_nonempty)

text \<open>
  Claim C6. Remote keywords and interval are copied into the local state only while the
  local keyword list is empty: once it is non-empty, no sequence of fetched
  configurations changes the state. From the initial state, the fetch of
  \<open>["EV", "Steel"]\<close> hydrates the local keywords, and a second fetch returning \<open>["EV"]\<close>
  leaves them at \<open>["EV", "Steel"]\<close>.
\<close>

theorem hydration_once:
  "(local_keywords st \<noteq> [] \<longrightarrow> foldl (\<lambda>s c. sync_config c s) st fetches = st)
   \<and> local_keywords (sync_config (Some \<lparr>search_keywords = [''EV'', ''Steel''],
          scraping_interval_minutes = i1\<rparr>) initial_state) = [''EV'', ''Steel'']
   \<and> local_keywords (sync_config (Some \<lparr>search_keywords = [''EV''], scraping_interval_minutes = i2\<rparr>)
        (sync_config (Some \<lparr>search_keywords = [''EV'', ''Steel''],
          scraping_interval_minutes = i1\<rparr>) initial_state)) = [''EV'', ''Steel'']"
proof (intro conjI impI)
  assume "local_keywords st \<noteq> []"
  then show "foldl (\<lambda>s c. sync_config c s) st fetches = st"
    by (rule sync_all_nonempty)
qed (simp_all add: sync_config_def initial_state_def)

theorem hydration_once_witness:
  "local_keywords (initial_state\<lparr>local_keywords := [''EV'', ''Steel'']\<rparr>) \<noteq> []
   \<and> foldl (\<lambda>s c. sync_config c s) (initial_state\<lparr>local_keywords := [''EV'', ''Steel'']\<rparr>)
        [Some \<lparr>search_keywords = [''EV''], scraping_interval_minutes = 30\<rparr>, None,
         Some \<lparr>search_keywords = [], scraping_interval_minutes = 15\<rparr>]
       = initial_state\<lparr>local_keywords := [''EV'', ''Steel'']\<rparr>"
  using hydration_once [of "initial_state\<lparr>local_keywords := [''EV'', ''Steel'']\<rparr>"
      "[Some \<lparr>search_keywords = [''EV''], scraping_interval_minutes = 30\<rparr>, None,
         Some \<lparr>search_keywords = [], scraping_interval_minutes = 15\<rparr>]" 0 0]
  by (simp add: initial_state_def)

text \<open>
  Claim C10. The guard tests only the emptiness of the local keyword list: in every state
  with an empty list a fetched configuration is copied (keywords and interval), and when
  the configuration copied had an empty keyword list, the next fetched configuration is
  copied as well.
\<close>

theorem hydration_while_empty:
  "local_keywords st = [] \<Longrightarrow>
     local_keywords (sync_config (Some c) st) = search_keywords c
     \<and> interval (sync_config (Some c) st) = scraping_interval_minutes c
     \<and> (search_keywords c = [] \<longrightarrow>
          local_keywords (sync_config (Some c') (sync_config (Some c) st)) = search_keywords c'
          \<and> interval (sync_config (Some c') (sync_config (Some c) st))
              = scraping_interval_minutes c')"
  by (simp add: sync_config_def Let_def)

theorem hydration_while_empty_witness:
  "local_keywords initial_state = []
   \<and> search_keywords \<lparr>search_keywords = [], scraping_interval_minutes = 15\<rparr> = []
   \<and> local_keywords (sync_config (Some \<lparr>search_keywords = [''EV''], scraping_interval_minutes = 30\<rparr>)
        (sync_config (Some \<lparr>search_keywords = [], scraping_interval_minutes = 15\<rparr>) initial_state))
       = [''EV'']
   \<and> interval (sync_config (Some \<lparr>search_keywords = [''EV''], scraping_interval_minutes = 30\<rparr>)
        (sync_config (Some \<lparr>search_keywords = [], scraping_interval_minutes = 15\<rparr>) initial_state))
       = 30"
  using hydration_while_empty [of initial_state
      "\<lparr>search_keywords = [], scraping_interval_minutes = 15\<rparr>"
      "\<lparr>search_keywords = [''EV''], scraping_interval_minutes = 30\<rparr>"]
  by (simp add: initial_state_def)

text \<open>
  Claim C7, as stated, fails when the keyword is already present: adding \<open>"Solar"\<close> to
  \<open>["Solar"]\<close> is rejected, and removing it then empties the list.
\<close>

theorem add_remove_present_counterexample:
  "local_keywords (fst (removeKeyword ''Solar'' (fst (addKeyword (setNewKeyword ''Solar''
      \<lparr>local_keywords = [''Solar''], interval = 60, newKeyword = [],
       selectedIndustry = ''Electric Vehicle''\<rparr>)))))
   \<noteq> local_keywords \<lparr>local_keywords = [''Solar''], interval = 60, newKeyword = [],
       selectedIndustry = ''Electric Vehicle''\<rparr>"
  by (simp add: addKeyword_def removeKeyword_def setNewKeyword_def)

text \<open>
  Claim C7, amended. For every local keyword sequence that does not already contain the
  keyword, typing it, adding it and then removing it leaves the keyword sequence as it
  was before the add.
\<close>

theorem add_remove_round_trip:
  "kw \<notin> set (local_keywords st) \<Longrightarrow>
     local_keywords (fst (removeKeyword kw (fst (addKeyword (setNewKeyword kw st)))))
       = local_keywords st"
  by (auto simp add: addKeyword_def removeKeyword_def setNewKeyword_def Let_def filter_id_conv)

theorem add_remove_round_trip_witness:
  "''Solar'' \<notin> set (local_keywords (initial_state\<lparr>local_keywords := [''EV'', ''Steel'']\<rparr>))
   \<and> local_keywords (fst (removeKeyword ''Solar'' (fst (addKeyword (setNewKeyword ''Solar''
        (initial_state\<lparr>local_keywords := [''EV'', ''Steel'']\<rparr>))))))
       = [''EV'', ''Steel'']"
  using add_remove_round_trip [of "''Solar''" "initial_state\<lparr>local_keywords := [''EV'', ''Steel'']\<rparr>"]
  by (simp add: initial_state_def)

end
